theory Spec2Isabelle
  imports Main
begin

section \<open>Data model of votes/models.py\<close>

text \<open>
  Python exceptions that the modelled methods can raise: \<open>ValueError\<close> is raised by the
  methods themselves, \<open>IndexError\<close> by \<open>queryset[0]\<close> on an empty result, and
  \<open>IntegrityError\<close> by the database when a \<open>save()\<close> would break a declared
  \<open>unique_together\<close> constraint.
\<close>

datatype error = ValueError | IndexError | IntegrityError

text \<open>class Status. Timestamps are abstract numbers; the stage is the stored one-character string.\<close>

record Status =
  sid :: nat
  open_time :: "nat option"
  close_time :: "nat option"
  public_time :: "nat option"
  stage :: string

definition INIT :: string where "INIT = ''I''"
definition STAGED :: string where "STAGED = ''S''"
definition OPEN :: string where "OPEN = ''O''"
definition CLOSE :: string where "CLOSE = ''C''"
definition PUBLIC :: string where "PUBLIC = ''P''"

text \<open>
  class Vote. Foreign keys are the ids of the rows they point to; \<open>status\<close> holds the related
  Status row, as the attribute access \<open>self.status\<close> yields it. The fields \<open>name\<close>,
  \<open>description\<close> and \<open>filter\<close> carry a prefix or a prime, since class Option has fields of
  the same names and \<open>filter\<close> is a list function.
\<close>

record Vote =
  vid :: nat
  system :: nat
  vname :: string
  machine_name :: string
  filter' :: "nat option"
  status :: Status
  vdescription :: string
  creator :: nat
  min_votes :: int
  max_votes :: int

text \<open>
  class Option (named \<open>OptionM\<close> here, apart from the HOL option type). A model instance
  that was never saved has no id; a row of the table always has one.
\<close>

record OptionM =
  oid :: "nat option"
  vote :: nat
  number :: int
  name :: string
  description :: string
  picture_url :: string
  personal_link :: string
  link_name :: string
  count :: int

text \<open>
  The database: the Option table and the Vote table in insertion order, and the log of the
  write statements executed (one entry per \<open>save()\<close> or \<open>delete()\<close> call).
\<close>

datatype stmt = OptionSaved nat | OptionDeleted nat | VoteSaved nat

record db =
  options :: "OptionM list"
  votes :: "Vote list"
  writes :: "stmt list"

section \<open>The persistence operations the methods call\<close>

text \<open>\<open>Option.Meta.unique_together = (vote, number)\<close>: another row of the same vote holds the number.\<close>

definition option_conflict :: "OptionM \<Rightarrow> OptionM list \<Rightarrow> bool" where
  "option_conflict v t =
     (\<exists>r \<in> set t. oid r \<noteq> oid v \<and> vote r = vote v \<and> number r = number v)"

text \<open>The id an insert assigns: one more than the largest id of the table.\<close>

definition fresh_id :: "OptionM list \<Rightarrow> nat" where
  "fresh_id t = Suc (fold (\<lambda>r m. max (case oid r of None \<Rightarrow> 0 | Some k \<Rightarrow> k) m) t 0)"

definition update_row :: "OptionM \<Rightarrow> OptionM list \<Rightarrow> OptionM list" where
  "update_row v t = map (\<lambda>r. if oid r = oid v then v else r) t"

text \<open>
  \<open>Option.save()\<close>: an instance with the id of a row updates that row with all its fields,
  any other instance is inserted (with a fresh id when it has none). The database refuses
  the statement when it breaks the uniqueness of (vote, number). Returns the instance (its
  id now set) and the new database.
\<close>

definition save_option :: "OptionM \<Rightarrow> db \<Rightarrow> error + (OptionM \<times> db)" where
  "save_option v d =
     (if option_conflict v (options d) then Inl IntegrityError
      else (case oid v of
              None \<Rightarrow>
                (let k = fresh_id (options d); v' = v\<lparr>oid := Some k\<rparr>
                 in Inr (v', d\<lparr>options := options d @ [v'], writes := writes d @ [OptionSaved k]\<rparr>))
            | Some k \<Rightarrow>
                (if Some k \<in> set (map oid (options d))
                 then Inr (v, d\<lparr>options := update_row v (options d),
                                writes := writes d @ [OptionSaved k]\<rparr>)
                 else Inr (v, d\<lparr>options := options d @ [v],
                                writes := writes d @ [OptionSaved k]\<rparr>))))"

text \<open>\<open>Option.delete()\<close>: removes the row with the instance's id; the instance loses its id.\<close>

definition delete_option :: "OptionM \<Rightarrow> db \<Rightarrow> OptionM \<times> db" where
  "delete_option v d =
     (v\<lparr>oid := None\<rparr>,
      d\<lparr>options := filter (\<lambda>r. oid r \<noteq> oid v) (options d),
        writes := writes d @ (case oid v of None \<Rightarrow> [] | Some k \<Rightarrow> [OptionDeleted k])\<rparr>)"

text \<open>
  \<open>Vote.Meta.unique_together = (system, machine_name)\<close>, and the one-to-one field
  \<open>status\<close>: another Vote row holds the same pair, or the same Status.
\<close>

definition vote_conflict :: "Vote \<Rightarrow> Vote list \<Rightarrow> bool" where
  "vote_conflict v t =
     (\<exists>r \<in> set t. vid r \<noteq> vid v \<and>
        ((system r = system v \<and> machine_name r = machine_name v) \<or> sid (status r) = sid (status v)))"

text \<open>\<open>Vote.save()\<close>: updates the row with the vote's id, or inserts it.\<close>

definition save_vote :: "Vote \<Rightarrow> db \<Rightarrow> error + db" where
  "save_vote v d =
     (if vote_conflict v (votes d) then Inl IntegrityError
      else if vid v \<in> set (map vid (votes d))
      then Inr (d\<lparr>votes := map (\<lambda>r. if vid r = vid v then v else r) (votes d),
                 writes := writes d @ [VoteSaved (vid v)]\<rparr>)
      else Inr (d\<lparr>votes := votes d @ [v], writes := writes d @ [VoteSaved (vid v)]\<rparr>))"

text \<open>\<open>self.option_set\<close>: the rows whose foreign key is this vote.\<close>

definition option_set :: "Vote \<Rightarrow> db \<Rightarrow> OptionM list" where
  "option_set self d = filter (\<lambda>r. vote r = vid self) (options d)"

text \<open>
  \<open>.order_by("number")\<close>: ascending by number. Rows with equal numbers (which the
  uniqueness constraint excludes within one vote) stay in table order.
\<close>

definition order_by_number :: "OptionM list \<Rightarrow> OptionM list" where
  "order_by_number rs = sort_key number rs"

text \<open>\<open>.values_list('id', flat=True)\<close>\<close>

definition values_list_id :: "OptionM list \<Rightarrow> nat option list" where
  "values_list_id rs = map oid rs"

text \<open>Python's \<open>str\<close> on an integer: its decimal digits, with a minus sign when negative.\<close>

fun str_nat :: "nat \<Rightarrow> string" where
  "str_nat n =
     (if n < 10 then [''0123456789'' ! n]
      else str_nat (n div 10) @ [''0123456789'' ! (n mod 10)])"

definition str :: "int \<Rightarrow> string" where
  "str i = (if i < 0 then CHR ''-'' # str_nat (nat (- i)) else str_nat (nat i))"

section \<open>The methods of class Vote\<close>

text \<open>\<open>Vote.canBeModified\<close>\<close>

definition canBeModified :: "Vote \<Rightarrow> bool" where
  "canBeModified self = (stage (status self) = ''I'')"

text \<open>
  \<open>Vote.renumberOptions\<close>. The queryset is fetched once, before the loop; every fetched
  instance gets its index as number and is saved, whether the number changed or not. The
  method is atomic: \<open>Inl e\<close> means that the exception \<open>e\<close> left the method and that the
  database is what it was before the call.
\<close>

fun renumber_loop :: "nat \<Rightarrow> OptionM list \<Rightarrow> db \<Rightarrow> error + db" where
  "renumber_loop i [] d = Inr d"
| "renumber_loop i (v # vs) d =
     (case save_option (v\<lparr>number := int i\<rparr>) d of
        Inl e \<Rightarrow> Inl e
      | Inr (_, d') \<Rightarrow> renumber_loop (Suc i) vs d')"

definition renumberOptions :: "Vote \<Rightarrow> db \<Rightarrow> error + db" where
  "renumberOptions self d = renumber_loop 0 (order_by_number (option_set self d)) d"

text \<open>
  The methods that follow also assign to fields of the instances they are given. They return the
  exception raised (if any), the instances as the caller sees them afterwards, and the
  database; on an exception the atomic block has rolled the database back to the one of
  the call, while assignments already made to the instances remain.
\<close>

text \<open>\<open>Vote.deleteOption\<close>\<close>

definition deleteOption :: "Vote \<Rightarrow> OptionM \<Rightarrow> db \<Rightarrow> error option \<times> Vote \<times> OptionM \<times> db" where
  "deleteOption self option d =
     (if oid option \<notin> set (values_list_id (option_set self d))
      then (Some ValueError, self, option, d)
      else
        (let (option1, d1) = delete_option option d;
             cnt = int (length (option_set self d1));
             self1 = (if min_votes self > cnt then self\<lparr>min_votes := cnt\<rparr> else self);
             self2 = (if max_votes self1 > cnt then self1\<lparr>max_votes := cnt\<rparr> else self1)
         in (case save_vote self2 d1 of
               Inl e \<Rightarrow> (Some e, self2, option1, d)
             | Inr d2 \<Rightarrow>
                 (case renumberOptions self2 d2 of
                    Inl e \<Rightarrow> (Some e, self2, option1, d)
                  | Inr d3 \<Rightarrow> (None, self2, option1, d3)))))"

text \<open>
  \<open>Vote.addOption\<close>. The new instance is built from vote, number and name only; the other
  fields take the defaults of their model fields (empty strings, count 0).
\<close>

definition new_option :: "nat \<Rightarrow> int \<Rightarrow> string \<Rightarrow> OptionM" where
  "new_option v num nm =
     \<lparr>oid = None, vote = v, number = num, name = nm, description = '''',
      picture_url = '''', personal_link = '''', link_name = '''', count = 0\<rparr>"

definition addOption :: "Vote \<Rightarrow> db \<Rightarrow> error option \<times> db" where
  "addOption self d =
     (case renumberOptions self d of
        Inl e \<Rightarrow> (Some e, d)
      | Inr d1 \<Rightarrow>
          (let num = int (length (option_set self d1));
               opt = new_option (vid self) num (''Option #'' @ str (num + 1))
           in (case save_option opt d1 of
                 Inl e \<Rightarrow> (Some e, d)
               | Inr (_, d2) \<Rightarrow> (None, d2))))"

text \<open>
  \<open>Vote.moveDownOption\<close>. \<open>option\<close> is the caller's instance: its number is the one it was
  loaded with, also after the renumbering has rewritten the rows.
\<close>

definition moveDownOption :: "Vote \<Rightarrow> OptionM \<Rightarrow> db \<Rightarrow> error option \<times> OptionM \<times> db" where
  "moveDownOption self option d =
     (if oid option \<notin> set (values_list_id (option_set self d))
      then (Some ValueError, option, d)
      else
        (case renumberOptions self d of
           Inl e \<Rightarrow> (Some e, option, d)
         | Inr d1 \<Rightarrow>
             (if number option = 0 then (None, option, d1)
              else
                (case filter (\<lambda>r. number r = number option - 1) (option_set self d1) of
                   [] \<Rightarrow> (Some IndexError, option, d)
                 | below0 # _ \<Rightarrow>
                     (let below1 = below0\<lparr>number := number option\<rparr>;
                          option' = option\<lparr>number := number option - 1\<rparr>
                      in (case save_option below1 d1 of
                            Inl e \<Rightarrow> (Some e, option', d)
                          | Inr (_, d2) \<Rightarrow>
                              (case save_option option' d2 of
                                 Inl e \<Rightarrow> (Some e, option', d)
                               | Inr (option'', d3) \<Rightarrow> (None, option'', d3))))))))"

text \<open>\<open>Vote.moveUpOption\<close>\<close>

definition moveUpOption :: "Vote \<Rightarrow> OptionM \<Rightarrow> db \<Rightarrow> error option \<times> OptionM \<times> db" where
  "moveUpOption self option d =
     (if oid option \<notin> set (values_list_id (option_set self d))
      then (Some ValueError, option, d)
      else
        (case renumberOptions self d of
           Inl e \<Rightarrow> (Some e, option, d)
         | Inr d1 \<Rightarrow>
             (if number option = int (length (option_set self d1)) - 1 then (None, option, d1)
              else
                (case filter (\<lambda>r. number r = number option + 1) (option_set self d1) of
                   [] \<Rightarrow> (Some IndexError, option, d)
                 | above0 # _ \<Rightarrow>
                     (let above1 = above0\<lparr>number := number option\<rparr>;
                          option' = option\<lparr>number := number option + 1\<rparr>
                      in (case save_option above1 d1 of
                            Inl e \<Rightarrow> (Some e, option', d)
                          | Inr (_, d2) \<Rightarrow>
                              (case save_option option' d2 of
                                 Inl e \<Rightarrow> (Some e, option', d)
                               | Inr (option'', d3) \<Rightarrow> (None, option'', d3))))))))"

section \<open>Database states and predicates used in the statements\<close>

text \<open>
  The constraints the database itself maintains: every Option row has an id, ids are unique,
  (vote, number) is unique among Option rows (\<open>Option.Meta.unique_together\<close>), Vote ids
  are unique, (system, machine_name) is unique among Vote rows
  (\<open>Vote.Meta.unique_together\<close>), and no two votes share a Status (one-to-one field).
\<close>

definition wf_db :: "db \<Rightarrow> bool" where
  "wf_db d =
     (None \<notin> set (map oid (options d)) \<and> distinct (map oid (options d))
      \<and> distinct (map (\<lambda>r. (vote r, number r)) (options d))
      \<and> distinct (map vid (votes d))
      \<and> distinct (map (\<lambda>v. (system v, machine_name v)) (votes d))
      \<and> distinct (map (\<lambda>v. sid (status v)) (votes d)))"

text \<open>
  The numbering of a vote's options is dense and zero-based: sorted, the numbers are
  \<open>0, 1, ..., count - 1\<close>.
\<close>

definition contiguous :: "Vote \<Rightarrow> db \<Rightarrow> bool" where
  "contiguous self d =
     (sort (map number (option_set self d)) = map int [0..<length (option_set self d)])"

text \<open>
  Two functions that describe the loop of \<open>renumberOptions\<close> in the proofs: \<open>renum\<close> is the
  loop on the Option table alone, without the checks of \<open>save()\<close>; \<open>img i rs r\<close> is what the
  loop over the fetched rows \<open>rs\<close>, counting from \<open>i\<close>, makes of the row \<open>r\<close>.
\<close>

fun renum :: "nat \<Rightarrow> OptionM list \<Rightarrow> OptionM list \<Rightarrow> OptionM list" where
  "renum i [] t = t"
| "renum i (v # vs) t = renum (Suc i) vs (update_row (v\<lparr>number := int i\<rparr>) t)"

fun img :: "nat \<Rightarrow> OptionM list \<Rightarrow> OptionM \<Rightarrow> OptionM" where
  "img i [] r = r"
| "img i (v # vs) r = (if r = v then v\<lparr>number := int i\<rparr> else img (Suc i) vs r)"

subsection \<open>Example data\<close>

text \<open>
  An Option row with id \<open>k\<close> of vote \<open>v\<close> at number \<open>n\<close> (its tally is \<open>10 * k\<close>), a Vote
  row with id \<open>k\<close> and the given bounds, and a database of two votes: vote 1 (bounds 2
  and 3) owns the options with ids \<open>1, 2, ...\<close> at the numbers \<open>ns\<close>, vote 2 (bounds 0 and
  1) owns the option with id 100 at number 0.
\<close>

definition example_option :: "nat \<Rightarrow> nat \<Rightarrow> int \<Rightarrow> OptionM" where
  "example_option k v n =
     \<lparr>oid = Some k, vote = v, number = n, name = ''Option #'' @ str (int k),
      description = ''text'', picture_url = '''', personal_link = '''', link_name = '''',
      count = 10 * int k\<rparr>"

definition example_vote :: "nat \<Rightarrow> int \<Rightarrow> int \<Rightarrow> Vote" where
  "example_vote k lo hi =
     \<lparr>vid = k, system = 1, vname = ''Vote'', machine_name = ''vote-'' @ str (int k),
      filter' = None,
      status = \<lparr>sid = k, open_time = None, close_time = None, public_time = None,
                stage = ''I''\<rparr>,
      vdescription = '''', creator = 1, min_votes = lo, max_votes = hi\<rparr>"

definition example_db :: "int list \<Rightarrow> db" where
  "example_db ns =
     \<lparr>options = map (\<lambda>(k, n). example_option k 1 n) (enumerate 1 ns) @ [example_option 100 2 0],
      votes = [example_vote 1 2 3, example_vote 2 0 1],
      writes = []\<rparr>"

section \<open>The renumbering loop\<close>

lemma map_oid_update_row [simp]: "map oid (update_row v t) = map oid t"
  by (induction t) (auto simp: update_row_def)

lemma save_option_existing:
  assumes "oid v \<in> set (map oid (options d))" "oid v \<noteq> None"
  shows "save_option v d =
    (if option_conflict v (options d) then Inl IntegrityError
     else Inr (v, d\<lparr>options := update_row v (options d),
                     writes := writes d @ [OptionSaved (the (oid v))]\<rparr>))"
  using assms by (auto simp: save_option_def split: option.splits)

lemma renumber_loop_shape:
  assumes "\<forall>r \<in> set rs. oid r \<in> set (map oid (options d)) \<and> oid r \<noteq> None"
    and "renumber_loop i rs d = Inr d'"
  shows "options d' = renum i rs (options d) \<and> votes d' = votes d
         \<and> writes d' = writes d @ map (\<lambda>r. OptionSaved (the (oid r))) rs"
  using assms
proof (induction rs arbitrary: i d)
  case Nil
  then show ?case by simp
next
  case (Cons v vs)
  let ?v = "v\<lparr>number := int i\<rparr>"
  have ex: "oid ?v \<in> set (map oid (options d))" "oid ?v \<noteq> None"
    using Cons.prems(1) by auto
  from Cons.prems(2) obtain d1 where
    s: "save_option ?v d = Inr (?v, d1)" and l: "renumber_loop (Suc i) vs d1 = Inr d'"
    by (auto simp: save_option_existing[OF ex] split: if_splits)
  have d1: "d1 = d\<lparr>options := update_row ?v (options d),
                     writes := writes d @ [OptionSaved (the (oid v))]\<rparr>"
    using s by (auto simp: save_option_existing[OF ex] split: if_splits)
  have "\<forall>r \<in> set vs. oid r \<in> set (map oid (options d1)) \<and> oid r \<noteq> None"
    using Cons.prems(1) by (simp add: d1)
  from Cons.IH[OF this l] show ?case by (simp add: d1)
qed

lemma img_notin: "r \<notin> set rs \<Longrightarrow> img i rs r = r"
  by (induction rs arbitrary: i) auto

lemma img_oid [simp]: "oid (img i rs r) = oid r"
  by (induction rs arbitrary: i) auto

lemma img_vote [simp]: "vote (img i rs r) = vote r"
  by (induction rs arbitrary: i) auto

lemma img_rest [simp]: "(img i rs r)\<lparr>number := n\<rparr> = r\<lparr>number := n\<rparr>"
  by (induction rs arbitrary: i) auto

lemma renum_img:
  assumes "distinct (map oid t)" "set rs \<subseteq> set t" "distinct rs"
  shows "renum i rs t = map (img i rs) t"
  using assms
proof (induction rs arbitrary: i t)
  case Nil
  then show ?case by (simp add: map_idI)
next
  case (Cons v vs)
  let ?v = "v\<lparr>number := int i\<rparr>"
  let ?t = "update_row ?v t"
  have vt: "v \<in> set t" and vs: "set vs \<subseteq> set t" "v \<notin> set vs" "distinct vs"
    using Cons.prems by auto
  have uniq: "\<And>r. r \<in> set t \<Longrightarrow> oid r = oid v \<Longrightarrow> r = v"
    using Cons.prems(1) vt by (meson distinct_map inj_onD)
  have sub: "set vs \<subseteq> set ?t"
  proof
    fix r assume r: "r \<in> set vs"
    then have "r \<in> set t" "r \<noteq> v" using vs by auto
    then have "oid r \<noteq> oid v" using uniq by auto
    then show "r \<in> set ?t" using \<open>r \<in> set t\<close> by (force simp: update_row_def)
  qed
  have new: "?v \<notin> set vs"
  proof
    assume "?v \<in> set vs"
    then have "?v \<in> set t" "?v \<noteq> v" using vs by auto
    then show False using uniq[of ?v] by simp
  qed
  have "renum i (v # vs) t = map (img (Suc i) vs) ?t"
    using Cons.IH[of ?t "Suc i"] Cons.prems(1) sub vs by simp
  also have "\<dots> = map (img i (v # vs)) t"
    unfolding update_row_def map_map
  proof (rule map_cong[OF refl])
    fix r assume "r \<in> set t"
    then show "(img (Suc i) vs \<circ> (\<lambda>r. if oid r = oid ?v then ?v else r)) r = img i (v # vs) r"
      using uniq[of r] new by (auto simp: img_notin)
  qed
  finally show ?case .
qed

lemma img_nth:
  "distinct rs \<Longrightarrow> k < length rs \<Longrightarrow> img i rs (rs ! k) = (rs ! k)\<lparr>number := int (i + k)\<rparr>"
proof (induction rs arbitrary: i k)
  case Nil
  then show ?case by simp
next
  case (Cons v vs)
  show ?case
  proof (cases k)
    case 0
    then show ?thesis by simp
  next
    case (Suc j)
    then have "vs ! j \<noteq> v" using Cons.prems by auto
    then show ?thesis using Cons Suc by simp
  qed
qed

lemma renumber_loop_succeeds:
  assumes "distinct (map oid (options d))" "None \<notin> set (map oid (options d))"
    and "set rs \<subseteq> set (options d)"
    and "\<forall>r \<in> set rs. vote r = V"
    and "sorted_wrt (<) (map number rs)"
    and "\<forall>r \<in> set rs. int i \<le> number r"
    and "\<forall>r \<in> set (options d). vote r = V \<longrightarrow> r \<in> set rs \<or> number r < int i"
  shows "\<exists>d'. renumber_loop i rs d = Inr d'"
  using assms
proof (induction rs arbitrary: i d)
  case Nil
  then show ?case by simp
next
  case (Cons v vs)
  let ?v = "v\<lparr>number := int i\<rparr>"
  let ?t = "options d"
  have vt: "v \<in> set ?t" and vV: "vote v = V" and vi: "int i \<le> number v"
    using Cons.prems by auto
  have gt: "\<forall>r \<in> set vs. number v < number r"
    using Cons.prems(5) by auto
  have uniq: "\<And>r. r \<in> set ?t \<Longrightarrow> oid r = oid v \<Longrightarrow> r = v"
    using Cons.prems(1) vt by (meson distinct_map inj_onD)
  have ex: "oid ?v \<in> set (map oid ?t)" "oid ?v \<noteq> None"
    using vt Cons.prems(2) by force+
  have noconf: "\<not> option_conflict ?v ?t"
    unfolding option_conflict_def
  proof
    assume "\<exists>r \<in> set ?t. oid r \<noteq> oid ?v \<and> vote r = vote ?v \<and> number r = number ?v"
    then obtain r where r: "r \<in> set ?t" "oid r \<noteq> oid v" "vote r = V" "number r = int i"
      using vV by auto
    with Cons.prems(7) have "r \<in> set (v # vs)" by fastforce
    with r(2) have "r \<in> set vs" by auto
    with gt vi r(4) show False by auto
  qed
  define d1 where "d1 = d\<lparr>options := update_row ?v ?t,
                     writes := writes d @ [OptionSaved (the (oid ?v))]\<rparr>"
  have s: "save_option ?v d = Inr (?v, d1)"
    using noconf by (simp add: save_option_existing[OF ex] d1_def)
  have t1: "options d1 = update_row ?v ?t" by (simp add: d1_def)
  have sub: "set vs \<subseteq> set (options d1)"
  proof
    fix r assume r: "r \<in> set vs"
    then have "r \<in> set ?t" "r \<noteq> v" using Cons.prems(3) gt by auto
    then have "oid r \<noteq> oid v" using uniq by auto
    then show "r \<in> set (options d1)" using \<open>r \<in> set ?t\<close> by (force simp: t1 update_row_def)
  qed
  have rest: "\<forall>r \<in> set (options d1). vote r = V \<longrightarrow> r \<in> set vs \<or> number r < int (Suc i)"
  proof (intro ballI impI)
    fix r assume r: "r \<in> set (options d1)" "vote r = V"
    then have "r = ?v \<or> (r \<in> set ?t \<and> oid r \<noteq> oid v)"
      by (auto simp: t1 update_row_def split: if_splits)
    then show "r \<in> set vs \<or> number r < int (Suc i)"
    proof
      assume "r = ?v" then show ?thesis by simp
    next
      assume a: "r \<in> set ?t \<and> oid r \<noteq> oid v"
      with Cons.prems(7) r(2) have "r \<in> set (v # vs) \<or> number r < int i" by blast
      with a show ?thesis by auto
    qed
  qed
  have "\<exists>d'. renumber_loop (Suc i) vs d1 = Inr d'"
  proof (rule Cons.IH)
    show "distinct (map oid (options d1))" using Cons.prems(1) by (simp add: t1)
    show "None \<notin> set (map oid (options d1))" using Cons.prems(2) by (simp add: t1)
    show "set vs \<subseteq> set (options d1)" by (rule sub)
    show "\<forall>r \<in> set vs. vote r = V" using Cons.prems(4) by simp
    show "sorted_wrt (<) (map number vs)" using Cons.prems(5) by simp
    show "\<forall>r \<in> set vs. int (Suc i) \<le> number r" using gt vi by auto
    show "\<forall>r \<in> set (options d1). vote r = V \<longrightarrow> r \<in> set vs \<or> number r < int (Suc i)"
      by (rule rest)
  qed
  then show ?case using s by simp
qed

lemma sorted_map_int_upt: "sorted (map int [i..<j])"
  by (simp add: sorted_map sorted_wrt_iff_nth_less)

lemma distinct_map_int_upt: "distinct (map int [i..<j])"
  by (simp add: distinct_map)

lemma contiguous_numbers_iff:
  "(sort xs = map int [0..<length xs]) = (distinct xs \<and> set xs = int ` {0..<length xs})"
proof
  assume a: "sort xs = map int [0..<length xs]"
  have "distinct (sort xs)" unfolding a by (rule distinct_map_int_upt)
  moreover have "set (sort xs) = int ` {0..<length xs}" unfolding a by simp
  ultimately show "distinct xs \<and> set xs = int ` {0..<length xs}" by simp
next
  assume a: "distinct xs \<and> set xs = int ` {0..<length xs}"
  show "sort xs = map int [0..<length xs]"
  proof (rule sorted_distinct_set_unique)
    show "sorted (sort xs)" by simp
    show "distinct (sort xs)" using a by simp
    show "sorted (map int [0..<length xs])" by (rule sorted_map_int_upt)
    show "distinct (map int [0..<length xs])" by (rule distinct_map_int_upt)
    show "set (sort xs) = set (map int [0..<length xs])" using a by simp
  qed
qed

lemma contiguous_iff:
  "contiguous self d =
     (distinct (map number (option_set self d))
      \<and> set (map number (option_set self d)) = int ` {0..<length (option_set self d)})"
  unfolding contiguous_def using contiguous_numbers_iff[of "map number (option_set self d)"]
  by simp

lemma distinct_pairs_iff:
  "distinct (map (\<lambda>r. (vote r, number r)) xs) =
     (\<forall>v. distinct (map number (filter (\<lambda>r. vote r = v) xs)))"
proof (induction xs)
  case Nil
  then show ?case by simp
next
  case (Cons x xs)
  have "((vote x, number x) \<notin> (\<lambda>r. (vote r, number r)) ` set xs)
        = (number x \<notin> number ` set (filter (\<lambda>r. vote r = vote x) xs))"
    by (auto simp: image_iff)
  then show ?case using Cons by auto
qed

lemma wf_distinct_rows: "wf_db d \<Longrightarrow> distinct (options d)"
  unfolding wf_db_def using distinct_map by blast

lemma wf_distinct_numbers: "wf_db d \<Longrightarrow> distinct (map number (option_set self d))"
  unfolding wf_db_def option_set_def using distinct_pairs_iff by blast

lemma fetched_facts:
  fixes self :: Vote and d :: db
  defines "rs \<equiv> order_by_number (option_set self d)"
  assumes wf: "wf_db d"
  shows "set rs = set (option_set self d)" "set rs \<subseteq> set (options d)" "distinct rs"
    "length rs = length (option_set self d)"
    "\<forall>r \<in> set rs. vote r = vid self" "sorted (map number rs)" "sorted_wrt (<) (map number rs)"
proof -
  have d: "distinct (option_set self d)"
    using wf_distinct_rows[OF wf] by (simp add: option_set_def)
  show s: "set rs = set (option_set self d)" by (simp add: rs_def order_by_number_def)
  then show "set rs \<subseteq> set (options d)" by (auto simp: option_set_def)
  show dr: "distinct rs" using d by (simp add: rs_def order_by_number_def)
  show "length rs = length (option_set self d)" by (simp add: rs_def order_by_number_def)
  show "\<forall>r \<in> set rs. vote r = vid self" using s by (auto simp: option_set_def)
  show so: "sorted (map number rs)" by (simp add: rs_def order_by_number_def)
  have "inj_on number (set (option_set self d))"
    using wf_distinct_numbers[OF wf, of self] by (simp add: distinct_map)
  then have "distinct (map number rs)" using dr s by (simp add: distinct_map)
  then show "sorted_wrt (<) (map number rs)" using so by (simp add: strict_sorted_iff)
qed

lemma renumberOptions_shape:
  assumes "wf_db d" "renumberOptions self d = Inr d'"
  shows "options d' = map (img 0 (order_by_number (option_set self d))) (options d)"
    and "votes d' = votes d"
    and "writes d' = writes d @ map (\<lambda>r. OptionSaved (the (oid r))) (order_by_number (option_set self d))"
proof -
  let ?rs = "order_by_number (option_set self d)"
  note f = fetched_facts[OF assms(1), of self]
  have ids: "\<forall>r \<in> set ?rs. oid r \<in> set (map oid (options d)) \<and> oid r \<noteq> None"
    using f(2) assms(1) by (force simp: wf_db_def)
  have l: "renumber_loop 0 ?rs d = Inr d'" using assms(2) by (simp add: renumberOptions_def)
  note sh = renumber_loop_shape[OF ids l]
  have "distinct (map oid (options d))" using assms(1) by (simp add: wf_db_def)
  from renum_img[OF this f(2) f(3)] sh
  show "options d' = map (img 0 ?rs) (options d)" by simp
  show "votes d' = votes d" using sh by simp
  show "writes d' = writes d @ map (\<lambda>r. OptionSaved (the (oid r))) ?rs" using sh by simp
qed

lemma renumberOptions_succeeds:
  assumes "wf_db d" "\<forall>r \<in> set (option_set self d). 0 \<le> number r"
  shows "\<exists>d'. renumberOptions self d = Inr d'"
  unfolding renumberOptions_def
proof (rule renumber_loop_succeeds[where V = "vid self"])
  note f = fetched_facts[OF assms(1), of self]
  show "distinct (map oid (options d))" "None \<notin> set (map oid (options d))"
    using assms(1) by (simp_all add: wf_db_def)
  show "set (order_by_number (option_set self d)) \<subseteq> set (options d)" by (rule f(2))
  show "\<forall>r \<in> set (order_by_number (option_set self d)). vote r = vid self" by (rule f(5))
  show "sorted_wrt (<) (map number (order_by_number (option_set self d)))" by (rule f(7))
  show "\<forall>r \<in> set (order_by_number (option_set self d)). int 0 \<le> number r"
    using assms(2) f(1) by simp
  show "\<forall>r \<in> set (options d). vote r = vid self \<longrightarrow>
          r \<in> set (order_by_number (option_set self d)) \<or> number r < int 0"
    using f(1) by (simp add: option_set_def)
qed

lemma renumbered_option_set:
  assumes "wf_db d" "renumberOptions self d = Inr d'"
  shows "option_set self d' = map (img 0 (order_by_number (option_set self d))) (option_set self d)"
  unfolding option_set_def renumberOptions_shape(1)[OF assms]
  by (simp add: filter_map comp_def)

lemma renumbered_other:
  assumes "wf_db d" "renumberOptions self d = Inr d'" "vid other \<noteq> vid self"
  shows "option_set other d' = option_set other d"
proof -
  let ?rs = "order_by_number (option_set self d)"
  note f = fetched_facts[OF assms(1), of self]
  have "map (img 0 ?rs) (filter (\<lambda>r. vote r = vid other) (options d))
        = map (\<lambda>r. r) (filter (\<lambda>r. vote r = vid other) (options d))"
  proof (rule map_cong[OF refl])
    fix r assume "r \<in> set (filter (\<lambda>r. vote r = vid other) (options d))"
    then have "r \<notin> set ?rs" using f(5) assms(3) by auto
    then show "img 0 ?rs r = r" by (rule img_notin)
  qed
  then show ?thesis
    unfolding option_set_def renumberOptions_shape(1)[OF assms(1,2)]
    by (simp add: filter_map comp_def)
qed

lemma img_fetched_numbers:
  assumes "distinct rs"
  shows "map (\<lambda>r. number (img 0 rs r)) rs = map int [0..<length rs]"
  by (rule nth_equalityI) (simp_all add: img_nth[OF assms])

lemma renumbered_contiguous:
  assumes "wf_db d" "renumberOptions self d = Inr d'"
  shows "contiguous self d'"
proof -
  let ?rs = "order_by_number (option_set self d)"
  let ?os = "option_set self d"
  let ?f = "\<lambda>r. number (img 0 ?rs r)"
  note f = fetched_facts[OF assms(1), of self]
  have os: "option_set self d' = map (img 0 ?rs) ?os" by (rule renumbered_option_set[OF assms])
  have nums: "map ?f ?rs = map int [0..<length ?rs]" by (rule img_fetched_numbers[OF f(3)])
  have dos: "distinct ?os" using wf_distinct_rows[OF assms(1)] by (simp add: option_set_def)
  have "distinct (map ?f ?rs)" unfolding nums by (rule distinct_map_int_upt)
  then have "inj_on ?f (set ?rs)" by (simp add: distinct_map)
  then have d: "distinct (map ?f ?os)" using dos f(1) by (simp add: distinct_map)
  have "set (map ?f ?os) = set (map ?f ?rs)" using f(1) by simp
  also have "\<dots> = int ` {0..<length ?os}" unfolding nums using f(4) by simp
  finally have s: "set (map ?f ?os) = int ` {0..<length ?os}" .
  show ?thesis unfolding contiguous_iff os using d s by (simp add: comp_def)
qed

lemma renumbered_ids:
  assumes "wf_db d" "renumberOptions self d = Inr d'"
  shows "map oid (options d') = map oid (options d)"
  unfolding renumberOptions_shape(1)[OF assms] by simp

lemma renumbered_fields:
  assumes "wf_db d" "renumberOptions self d = Inr d'"
  shows "map (\<lambda>r. r\<lparr>number := 0\<rparr>) (options d') = map (\<lambda>r. r\<lparr>number := 0\<rparr>) (options d)"
  unfolding renumberOptions_shape(1)[OF assms] by simp

lemma renumbered_wf:
  assumes "wf_db d" "renumberOptions self d = Inr d'"
  shows "wf_db d'"
proof -
  have "distinct (map number (filter (\<lambda>r. vote r = v) (options d')))" for v
  proof (cases "v = vid self")
    case True
    then show ?thesis
      using renumbered_contiguous[OF assms] by (simp add: contiguous_iff option_set_def)
  next
    case False
    define other where "other = self\<lparr>vid := v\<rparr>"
    have "vid other \<noteq> vid self" "vid other = v" using False by (simp_all add: other_def)
    with renumbered_other[OF assms, of other] wf_distinct_numbers[OF assms(1), of other]
    show ?thesis by (simp add: option_set_def)
  qed
  then have "distinct (map (\<lambda>r. (vote r, number r)) (options d'))"
    by (simp add: distinct_pairs_iff)
  then show ?thesis
    using assms(1) renumbered_ids[OF assms] renumberOptions_shape(2)[OF assms]
    by (simp add: wf_db_def)
qed

lemma renumbered_order:
  assumes "wf_db d" "renumberOptions self d = Inr d'"
    and "a < length (options d)" "b < length (options d)"
    and "vote (options d ! a) = vid self" "vote (options d ! b) = vid self"
    and "number (options d ! a) < number (options d ! b)"
  shows "number (options d' ! a) < number (options d' ! b)"
proof -
  let ?rs = "order_by_number (option_set self d)"
  note f = fetched_facts[OF assms(1), of self]
  have "options d ! a \<in> set ?rs" "options d ! b \<in> set ?rs"
    using assms(3-6) f(1) by (simp_all add: option_set_def)
  then obtain i j where i: "i < length ?rs" "?rs ! i = options d ! a"
    and j: "j < length ?rs" "?rs ! j = options d ! b"
    by (auto simp: in_set_conv_nth)
  have "\<not> j \<le> i"
  proof
    assume "j \<le> i"
    then have "map number ?rs ! j \<le> map number ?rs ! i"
      using f(6) i(1) by (simp add: sorted_iff_nth_mono del: nth_map)
    then show False using i j assms(7) by simp
  qed
  then have "i < j" by simp
  moreover have "options d' ! a = (options d ! a)\<lparr>number := int i\<rparr>"
    using img_nth[OF f(3) i(1), of 0] i(2) assms(3) 
    by (simp add: renumberOptions_shape(1)[OF assms(1,2)])
  moreover have "options d' ! b = (options d ! b)\<lparr>number := int j\<rparr>"
    using img_nth[OF f(3) j(1), of 0] j(2) assms(4) 
    by (simp add: renumberOptions_shape(1)[OF assms(1,2)])
  ultimately show ?thesis by simp
qed

lemma renumber_contiguous_unchanged:
  assumes "wf_db d" "contiguous self d"
  shows "renumberOptions self d =
     Inr (d\<lparr>writes := writes d @
               map (\<lambda>r. OptionSaved (the (oid r))) (order_by_number (option_set self d))\<rparr>)"
proof -
  let ?rs = "order_by_number (option_set self d)"
  let ?os = "option_set self d"
  note f = fetched_facts[OF assms(1), of self]
  have nn: "\<forall>r \<in> set ?os. 0 \<le> number r"
  proof
    fix r assume "r \<in> set ?os"
    then have "number r \<in> int ` {0..<length ?os}"
      using assms(2) by (auto simp: contiguous_iff)
    then show "0 \<le> number r" by auto
  qed
  from renumberOptions_succeeds[OF assms(1) nn] obtain d' where d': "renumberOptions self d = Inr d'" ..
  note sh = renumberOptions_shape[OF assms(1) d']
  have "map number ?rs = map int [0..<length ?rs]"
  proof (rule sorted_distinct_set_unique)
    show "sorted (map number ?rs)" by (rule f(6))
    show "distinct (map number ?rs)" using f(7) strict_sorted_iff by blast
    show "sorted (map int [0..<length ?rs])" by (rule sorted_map_int_upt)
    show "distinct (map int [0..<length ?rs])" by (rule distinct_map_int_upt)
    show "set (map number ?rs) = set (map int [0..<length ?rs])"
      using assms(2) f(1) f(4) by (simp add: contiguous_iff)
  qed
  then have num: "\<And>k. k < length ?rs \<Longrightarrow> number (?rs ! k) = int k"
    by (metis length_map nth_map nth_upt add_0 length_upt diff_zero)
  have "map (img 0 ?rs) (options d) = map (\<lambda>r. r) (options d)"
  proof (rule map_cong[OF refl])
    fix r assume "r \<in> set (options d)"
    show "img 0 ?rs r = r"
    proof (cases "r \<in> set ?rs")
      case False
      then show ?thesis by (rule img_notin)
    next
      case True
      then obtain k where k: "k < length ?rs" "?rs ! k = r" by (auto simp: in_set_conv_nth)
      then show ?thesis using img_nth[OF f(3) k(1), of 0] num[OF k(1)] by simp
    qed
  qed
  then have "options d' = options d" using sh(1) by simp
  then have "d' = d\<lparr>writes := writes d @ map (\<lambda>r. OptionSaved (the (oid r))) ?rs\<rparr>"
    using sh(2,3) by simp
  then show ?thesis using d' by simp
qed

section \<open>Facts about the example data\<close>

lemma ex_tampered_wf: "wf_db (example_db [5, 2, 9, 0])" by code_simp

lemma ex_tampered_nonneg:
  "\<forall>r \<in> set (option_set (example_vote 1 2 3) (example_db [5, 2, 9, 0])). 0 \<le> number r"
  by code_simp

lemma ex_foreign: "oid (example_option 100 2 0)
     \<notin> set (map oid (option_set (example_vote 1 2 3) (example_db [0, 1, 2])))"
  by code_simp

section \<open>Lemmas on adding an option\<close>

lemma fold_max_ge:
  "\<forall>r \<in> set t. f r \<le> fold (\<lambda>r m. max (f r) m) t (a::nat)"
  "a \<le> fold (\<lambda>r m. max (f r) m) t a"
proof (induction t arbitrary: a)
  case Nil
  { case 1 show ?case by simp }
  { case 2 show ?case by simp }
next
  case (Cons x xs)
  { case 1
    have "f x \<le> max (f x) a" by simp
    also have "\<dots> \<le> fold (\<lambda>r m. max (f r) m) xs (max (f x) a)" by (rule Cons.IH(2))
    finally show ?case using Cons.IH(1)[of "max (f x) a"] by simp }
  { case 2
    have "a \<le> max (f x) a" by simp
    also have "\<dots> \<le> fold (\<lambda>r m. max (f r) m) xs (max (f x) a)" by (rule Cons.IH(2))
    finally show ?case by simp }
qed

lemma fresh_id_notin: "Some (fresh_id t) \<notin> set (map oid t)"
proof
  assume "Some (fresh_id t) \<in> set (map oid t)"
  then obtain r where r: "r \<in> set t" "oid r = Some (fresh_id t)" by auto
  from fold_max_ge(1)[of t "\<lambda>r. case oid r of None \<Rightarrow> 0 | Some k \<Rightarrow> k" 0] r
  have "fresh_id t \<le> fold (\<lambda>r m. max (case oid r of None \<Rightarrow> 0 | Some k \<Rightarrow> k) m) t 0"
    by force
  then show False by (simp add: fresh_id_def)
qed

lemma renumbered_length:
  assumes "wf_db d" "renumberOptions self d = Inr d1"
  shows "length (option_set self d1) = length (option_set self d)"
  using renumbered_option_set[OF assms] by simp

lemma contiguous_no_conflict:
  assumes "contiguous self d" "vote v = vid self"
    and "number v < 0 \<or> int (length (option_set self d)) \<le> number v"
  shows "\<not> option_conflict v (options d)"
proof
  assume "option_conflict v (options d)"
  then obtain r where "r \<in> set (option_set self d)" "number r = number v"
    using assms(2) by (auto simp: option_conflict_def option_set_def)
  then have "number v \<in> set (map number (option_set self d))"
    by (metis image_eqI list.set_map)
  then have "number v \<in> int ` {0..<length (option_set self d)}"
    using assms(1) by (simp add: contiguous_iff)
  then show False using assms(3) by auto
qed

lemma addOption_result:
  assumes "wf_db d" "renumberOptions self d = Inr d1"
  defines "n \<equiv> int (length (option_set self d))"
  shows "addOption self d =
     (None, d1\<lparr>options := options d1 @
                  [(new_option (vid self) n (''Option #'' @ str (n + 1)))
                     \<lparr>oid := Some (fresh_id (options d1))\<rparr>],
               writes := writes d1 @ [OptionSaved (fresh_id (options d1))]\<rparr>)"
proof -
  let ?opt = "new_option (vid self) n (''Option #'' @ str (n + 1))"
  have len: "int (length (option_set self d1)) = n"
    using renumbered_length[OF assms(1,2)] by (simp add: n_def)
  have "\<not> option_conflict ?opt (options d1)"
    by (rule contiguous_no_conflict[OF renumbered_contiguous[OF assms(1,2)]])
       (simp_all add: new_option_def len)
  then show ?thesis
    by (simp add: addOption_def assms(2) len save_option_def Let_def new_option_def)
qed

lemma addOption_error:
  "renumberOptions self d = Inl e \<Longrightarrow> addOption self d = (Some e, d)"
  by (simp add: addOption_def)

lemma option_set_append:
  "option_set self (d\<lparr>options := options d @ [v], writes := w\<rparr>)
     = option_set self d @ (if vote v = vid self then [v] else [])"
  by (simp add: option_set_def)

lemma ex_dense_wf: "wf_db (example_db [0, 1, 2])" by code_simp

lemma ex_dense_nonneg:
  "\<forall>r \<in> set (option_set (example_vote 1 2 3) (example_db [0, 1, 2])). 0 \<le> number r"
  by code_simp

section \<open>Lemmas on deleting an option\<close>

lemma length_filter_remove:
  "distinct (map f xs) \<Longrightarrow> a \<in> set (map f xs) \<Longrightarrow>
     Suc (length (filter (\<lambda>r. f r \<noteq> a) xs)) = length xs"
proof (induction xs)
  case Nil
  then show ?case by simp
next
  case (Cons x xs)
  show ?case
  proof (cases "f x = a")
    case True
    then have "a \<notin> f ` set xs" using Cons.prems(1) by auto
    then have "filter (\<lambda>r. f r \<noteq> a) xs = xs" by (auto simp: filter_id_conv)
    then show ?thesis using True by simp
  next
    case False
    then show ?thesis using Cons by auto
  qed
qed

lemma option_set_vid: "vid v = vid w \<Longrightarrow> option_set v d = option_set w d"
  by (simp add: option_set_def)

lemma contiguous_vid: "vid v = vid w \<Longrightarrow> contiguous v d = contiguous w d"
  by (simp add: contiguous_def option_set_def)

lemma wf_no_vote_conflict:
  assumes "wf_db d" "self \<in> set (votes d)"
    and "vid v = vid self" "system v = system self" "machine_name v = machine_name self"
    and "sid (status v) = sid (status self)"
  shows "\<not> vote_conflict v (votes d)"
proof
  assume "vote_conflict v (votes d)"
  then obtain r where r: "r \<in> set (votes d)" "vid r \<noteq> vid self"
    "(system r = system self \<and> machine_name r = machine_name self)
       \<or> sid (status r) = sid (status self)"
    using assms(3-6) by (auto simp: vote_conflict_def)
  have i1: "inj_on (\<lambda>v. (system v, machine_name v)) (set (votes d))"
    and i2: "inj_on (\<lambda>v. sid (status v)) (set (votes d))"
    using assms(1) by (simp_all add: wf_db_def distinct_map)
  from r(3) have "r = self"
  proof
    assume "system r = system self \<and> machine_name r = machine_name self"
    then show ?thesis using inj_onD[OF i1 _ r(1) assms(2)] by simp
  next
    assume "sid (status r) = sid (status self)"
    then show ?thesis using inj_onD[OF i2 _ r(1) assms(2)] by simp
  qed
  with r(2) show False by simp
qed

lemma wf_after_delete:
  assumes "wf_db d" "self \<in> set (votes d)"
    and "vid v = vid self" "system v = system self" "machine_name v = machine_name self"
    and "sid (status v) = sid (status self)"
  shows "wf_db (d\<lparr>options := filter P (options d),
                  votes := map (\<lambda>r. if vid r = vid v then v else r) (votes d),
                  writes := w\<rparr>)"
proof -
  have "map vid (map (\<lambda>r. if vid r = vid v then v else r) (votes d)) = map vid (votes d)"
    by (induction "votes d") auto
  moreover have u: "\<And>r. r \<in> set (votes d) \<Longrightarrow> vid r = vid self \<Longrightarrow> r = self"
    using assms(1,2) by (metis (no_types, lifting) wf_db_def distinct_map inj_onD)
  have "map (\<lambda>v. (system v, machine_name v)) (map (\<lambda>r. if vid r = vid v then v else r) (votes d))
         = map (\<lambda>v. (system v, machine_name v)) (votes d)"
    unfolding map_map by (rule map_cong[OF refl]) (use u assms(3-5) in auto)
  moreover have "map (\<lambda>v. sid (status v)) (map (\<lambda>r. if vid r = vid v then v else r) (votes d))
         = map (\<lambda>v. sid (status v)) (votes d)"
    unfolding map_map by (rule map_cong[OF refl]) (use u assms(3,6) in auto)
  ultimately show ?thesis
    using assms(1) by (auto simp: wf_db_def distinct_map_filter simp del: map_map)
qed

lemma ex_dense_vote: "example_vote 1 2 3 \<in> set (votes (example_db [0, 1, 2]))" by code_simp

lemma ex_dense_member:
  "oid (example_option 2 1 1) \<in> set (map oid (option_set (example_vote 1 2 3) (example_db [0, 1, 2])))"
  by code_simp

lemma deleteOption_steps:
  assumes wf: "wf_db d" and self: "self \<in> set (votes d)"
    and mem: "oid option \<in> set (map oid (option_set self d))"
    and nn: "\<forall>r \<in> set (option_set self d). 0 \<le> number r"
  obtains self2 d2 d3 where
    "self2 = self\<lparr>min_votes := min (min_votes self) (int (length (option_set self d2))),
                   max_votes := min (max_votes self) (int (length (option_set self d2)))\<rparr>"
    "wf_db d2"
    "options d2 = filter (\<lambda>r. oid r \<noteq> oid option) (options d)"
    "Suc (length (option_set self d2)) = length (option_set self d)"
    "self2 \<in> set (votes d2)"
    "renumberOptions self2 d2 = Inr d3"
    "deleteOption self option d = (None, self2, option\<lparr>oid := None\<rparr>, d3)"
proof -
  let ?x = "oid option"
  let ?t1 = "filter (\<lambda>r. oid r \<noteq> ?x) (options d)"
  have "?x \<in> set (map oid (options d))" using mem by (auto simp: option_set_def)
  moreover have "None \<notin> set (map oid (options d))" using wf by (simp add: wf_db_def)
  ultimately have "?x \<noteq> None" by metis
  then obtain k where k: "?x = Some k" by auto
  define d1 where "d1 = d\<lparr>options := ?t1, writes := writes d @ [OptionDeleted k]\<rparr>"
  have del: "delete_option option d = (option\<lparr>oid := None\<rparr>, d1)"
    by (simp add: delete_option_def d1_def k)
  have os1: "option_set self d1 = filter (\<lambda>r. oid r \<noteq> ?x) (option_set self d)"
    by (auto simp: option_set_def d1_def intro: filter_cong)
  have "distinct (map oid (option_set self d))"
    using wf by (simp add: wf_db_def option_set_def distinct_map_filter)
  from length_filter_remove[OF this mem]
  have len: "Suc (length (option_set self d1)) = length (option_set self d)"
    by (simp add: os1)
  define cnt where "cnt = int (length (option_set self d1))"
  define self2 where "self2 = self\<lparr>min_votes := min (min_votes self) cnt,
                                    max_votes := min (max_votes self) cnt\<rparr>"
  have clamp: "(let self1 = (if min_votes self > cnt then self\<lparr>min_votes := cnt\<rparr> else self)
                in (if max_votes self1 > cnt then self1\<lparr>max_votes := cnt\<rparr> else self1)) = self2"
    by (simp add: self2_def Let_def min_def)
  have same: "vid self2 = vid self" "system self2 = system self"
    "machine_name self2 = machine_name self" "sid (status self2) = sid (status self)"
    by (simp_all add: self2_def)
  define d2 where "d2 = d\<lparr>options := ?t1,
      votes := map (\<lambda>r. if vid r = vid self2 then self2 else r) (votes d),
      writes := writes d @ [OptionDeleted k, VoteSaved (vid self)]\<rparr>"
  have sv: "save_vote self2 d1 = Inr d2"
    using wf_no_vote_conflict[OF wf self same] self
    by (simp add: save_vote_def d1_def d2_def same(1))
  have wf2: "wf_db d2" unfolding d2_def by (rule wf_after_delete[OF wf self same])
  have os2: "option_set self2 d2 = option_set self d1" "option_set self d2 = option_set self d1"
    by (simp_all add: option_set_def d1_def d2_def same(1))
  have nn2: "\<forall>r \<in> set (option_set self2 d2). 0 \<le> number r"
    using nn by (simp add: os2 os1)
  from renumberOptions_succeeds[OF wf2 nn2]
  obtain d3 where r: "renumberOptions self2 d2 = Inr d3" ..
  have res: "deleteOption self option d = (None, self2, option\<lparr>oid := None\<rparr>, d3)"
    using mem clamp[unfolded cnt_def Let_def] sv r
    by (simp add: deleteOption_def values_list_id_def del Let_def cnt_def)
  have pers: "self2 \<in> set (votes d2)" using self by (force simp: d2_def same(1))
  show ?thesis
  proof (rule that[of self2 d2 d3])
    show "self2 = self\<lparr>min_votes := min (min_votes self) (int (length (option_set self d2))),
                   max_votes := min (max_votes self) (int (length (option_set self d2)))\<rparr>"
      by (simp add: self2_def cnt_def os2)
    show "wf_db d2" by (rule wf2)
    show "options d2 = ?t1" by (simp add: d2_def)
    show "Suc (length (option_set self d2)) = length (option_set self d)"
      using len by (simp add: os2)
    show "self2 \<in> set (votes d2)" by (rule pers)
    show "renumberOptions self2 d2 = Inr d3" by (rule r)
    show "deleteOption self option d = (None, self2, option\<lparr>oid := None\<rparr>, d3)" by (rule res)
  qed
qed

section \<open>Lemmas on moving an option\<close>

lemma contiguous_range:
  assumes "contiguous self d" "r \<in> set (option_set self d)"
  shows "0 \<le> number r" "number r < int (length (option_set self d))"
proof -
  have "number r \<in> set (map number (option_set self d))"
    using assms(2) by (metis image_eqI list.set_map)
  then have "number r \<in> int ` {0..<length (option_set self d)}"
    using assms(1) by (simp add: contiguous_iff)
  then show "0 \<le> number r" "number r < int (length (option_set self d))" by auto
qed

lemma contiguous_has_number:
  assumes "contiguous self d" "0 \<le> k" "k < int (length (option_set self d))"
  shows "\<exists>r \<in> set (option_set self d). number r = k"
proof -
  have "k \<in> int ` {0..<length (option_set self d)}"
    using assms(2,3) by (auto simp: image_iff intro: bexI[of _ "nat k"])
  then have "k \<in> set (map number (option_set self d))"
    using assms(1) by (simp add: contiguous_iff)
  then show ?thesis by auto
qed

lemma neighbour_fetched:
  assumes "contiguous self d" "0 \<le> k" "k < int (length (option_set self d))"
  obtains nb rest where "filter (\<lambda>r. number r = k) (option_set self d) = nb # rest"
    "nb \<in> set (option_set self d)" "number nb = k"
proof -
  from contiguous_has_number[OF assms] have "filter (\<lambda>r. number r = k) (option_set self d) \<noteq> []"
    by (auto simp: filter_empty_conv)
  then obtain nb rest where e: "filter (\<lambda>r. number r = k) (option_set self d) = nb # rest"
    by (cases "filter (\<lambda>r. number r = k) (option_set self d)") auto
  then have "nb \<in> set (filter (\<lambda>r. number r = k) (option_set self d))" by simp
  then have "nb \<in> set (option_set self d)" "number nb = k" by auto
  with e show ?thesis by (rule that)
qed

lemma swap_conflict:
  assumes "wf_db d" "option \<in> set (option_set self d)" "nb \<in> set (option_set self d)"
    and "number nb \<noteq> number option"
  shows "option_conflict (nb\<lparr>number := number option\<rparr>) (options d)"
proof -
  have o: "option \<in> set (options d)" "vote option = vid self"
    and n: "nb \<in> set (options d)" "vote nb = vid self"
    using assms(2,3) by (auto simp: option_set_def)
  have "nb \<noteq> option" using assms(4) by auto
  moreover have "inj_on oid (set (options d))" using assms(1) by (simp add: wf_db_def distinct_map)
  ultimately have "oid option \<noteq> oid nb" using o(1) n(1) by (auto dest: inj_onD)
  then show ?thesis unfolding option_conflict_def using o n by (intro bexI[of _ option]) simp_all
qed

lemma renumbered_dense:
  assumes "wf_db d" "contiguous self d"
  obtains d1 where "renumberOptions self d = Inr d1" "options d1 = options d" "votes d1 = votes d"
    "option_set self d1 = option_set self d"
proof -
  let ?d1 = "d\<lparr>writes := writes d @
               map (\<lambda>r. OptionSaved (the (oid r))) (order_by_number (option_set self d))\<rparr>"
  have "renumberOptions self d = Inr ?d1" by (rule renumber_contiguous_unchanged[OF assms])
  moreover have "options ?d1 = options d" "votes ?d1 = votes d"
    "option_set self ?d1 = option_set self d" by (simp_all add: option_set_def)
  ultimately show ?thesis by (rule that)
qed

lemma ex_five_wf: "wf_db (example_db [0, 1, 2, 3, 4])" by code_simp

lemma ex_five_dense: "contiguous (example_vote 1 2 3) (example_db [0, 1, 2, 3, 4])" by code_simp

lemma ex_five_member:
  "example_option 3 1 2 \<in> set (option_set (example_vote 1 2 3) (example_db [0, 1, 2, 3, 4]))"
  by code_simp

lemma ex_dense_dense: "contiguous (example_vote 1 2 3) (example_db [0, 1, 2])" by code_simp

lemma ex_dense_first:
  "example_option 1 1 0 \<in> set (option_set (example_vote 1 2 3) (example_db [0, 1, 2]))"
  by code_simp

lemma ex_dense_last:
  "example_option 3 1 2 \<in> set (option_set (example_vote 1 2 3) (example_db [0, 1, 2]))"
  by code_simp

lemma moveUpOption_dense:
  assumes "wf_db d" and "contiguous self d" and "option \<in> set (option_set self d)"
  shows "moveUpOption self option d =
     (if number option = int (length (option_set self d)) - 1
      then (None, option,
            d\<lparr>writes := writes d @
                 map (\<lambda>r. OptionSaved (the (oid r))) (order_by_number (option_set self d))\<rparr>)
      else (Some IntegrityError, option\<lparr>number := number option + 1\<rparr>, d))"
proof -
  let ?d1 = "d\<lparr>writes := writes d @
               map (\<lambda>r. OptionSaved (the (oid r))) (order_by_number (option_set self d))\<rparr>"
  have r: "renumberOptions self d = Inr ?d1" by (rule renumber_contiguous_unchanged[OF assms(1,2)])
  have os: "option_set self ?d1 = option_set self d" by (simp add: option_set_def)
  have mem: "oid option \<in> set (values_list_id (option_set self d))"
    using assms(3) by (simp add: values_list_id_def)
  note rng = contiguous_range[OF assms(2,3)]
  show ?thesis
  proof (cases "number option = int (length (option_set self d)) - 1")
    case True
    then show ?thesis using mem r by (simp add: moveUpOption_def os)
  next
    case False
    from neighbour_fetched[OF assms(2), of "number option + 1"] rng False
    obtain nb rest where f: "filter (\<lambda>r. number r = number option + 1) (option_set self d) = nb # rest"
      and nb: "nb \<in> set (option_set self d)" "number nb = number option + 1" by auto
    have "option_conflict (nb\<lparr>number := number option\<rparr>) (options ?d1)"
      using swap_conflict[OF assms(1,3) nb(1)] nb(2) by simp
    then have "save_option (nb\<lparr>number := number option\<rparr>) ?d1 = Inl IntegrityError"
      by (simp add: save_option_def)
    then show ?thesis using mem r False by (simp add: moveUpOption_def os f Let_def)
  qed
qed

lemma moveDownOption_dense:
  assumes "wf_db d" and "contiguous self d" and "option \<in> set (option_set self d)"
  shows "moveDownOption self option d =
     (if number option = 0
      then (None, option,
            d\<lparr>writes := writes d @
                 map (\<lambda>r. OptionSaved (the (oid r))) (order_by_number (option_set self d))\<rparr>)
      else (Some IntegrityError, option\<lparr>number := number option - 1\<rparr>, d))"
proof -
  let ?d1 = "d\<lparr>writes := writes d @
               map (\<lambda>r. OptionSaved (the (oid r))) (order_by_number (option_set self d))\<rparr>"
  have r: "renumberOptions self d = Inr ?d1" by (rule renumber_contiguous_unchanged[OF assms(1,2)])
  have os: "option_set self ?d1 = option_set self d" by (simp add: option_set_def)
  have mem: "oid option \<in> set (values_list_id (option_set self d))"
    using assms(3) by (simp add: values_list_id_def)
  note rng = contiguous_range[OF assms(2,3)]
  show ?thesis
  proof (cases "number option = 0")
    case True
    then show ?thesis using mem r by (simp add: moveDownOption_def os)
  next
    case False
    from neighbour_fetched[OF assms(2), of "number option - 1"] rng False
    obtain nb rest where f: "filter (\<lambda>r. number r = number option - 1) (option_set self d) = nb # rest"
      and nb: "nb \<in> set (option_set self d)" "number nb = number option - 1" by auto
    have "option_conflict (nb\<lparr>number := number option\<rparr>) (options ?d1)"
      using swap_conflict[OF assms(1,3) nb(1)] nb(2) by simp
    then have "save_option (nb\<lparr>number := number option\<rparr>) ?d1 = Inl IntegrityError"
      by (simp add: save_option_def)
    then show ?thesis using mem r False by (simp add: moveDownOption_def os f Let_def)
  qed
qed

lemma wf_contiguous_writes:
  "wf_db (d\<lparr>writes := w\<rparr>) = wf_db d" "contiguous self (d\<lparr>writes := w\<rparr>) = contiguous self d"
  by (simp_all add: wf_db_def contiguous_def option_set_def)

lemma addOption_dense:
  assumes "wf_db d" "renumberOptions self d = Inr d1"
  shows "\<exists>d'. addOption self d = (None, d') \<and> wf_db d' \<and> contiguous self d'"
proof -
  let ?n = "length (option_set self d)"
  let ?k = "fresh_id (options d1)"
  let ?opt = "(new_option (vid self) (int ?n) (''Option #'' @ str (int ?n + 1)))\<lparr>oid := Some ?k\<rparr>"
  let ?d' = "d1\<lparr>options := options d1 @ [?opt], writes := writes d1 @ [OptionSaved ?k]\<rparr>"
  have a: "addOption self d = (None, ?d')" by (rule addOption_result[OF assms])
  have wf1: "wf_db d1" by (rule renumbered_wf[OF assms])
  have c1: "contiguous self d1" by (rule renumbered_contiguous[OF assms])
  have l1: "length (option_set self d1) = ?n" by (rule renumbered_length[OF assms])
  have nc: "\<not> option_conflict ?opt (options d1)"
    by (rule contiguous_no_conflict[OF c1]) (simp_all add: new_option_def l1)
  have "(vote ?opt, number ?opt) \<notin> set (map (\<lambda>r. (vote r, number r)) (options d1))"
  proof
    assume "(vote ?opt, number ?opt) \<in> set (map (\<lambda>r. (vote r, number r)) (options d1))"
    then obtain r where "r \<in> set (options d1)" "vote r = vote ?opt" "number r = number ?opt"
      by auto
    moreover have "oid r \<noteq> oid ?opt"
      using fresh_id_notin[of "options d1"] calculation(1) by force
    ultimately show False using nc by (auto simp: option_conflict_def)
  qed
  then have wf': "wf_db ?d'"
    using wf1 fresh_id_notin[of "options d1"] by (simp add: wf_db_def)
  have os: "option_set self ?d' = option_set self d1 @ [?opt]"
    by (simp add: option_set_append new_option_def)
  have nums: "map number (option_set self ?d') = map number (option_set self d1) @ [int ?n]"
    unfolding os by (simp add: new_option_def)
  have len': "length (option_set self ?d') = Suc ?n" unfolding os by (simp add: l1)
  have old: "distinct (map number (option_set self d1))"
    "set (map number (option_set self d1)) = int ` {0..<?n}"
    using c1 by (simp_all add: contiguous_iff l1)
  have "int ?n \<notin> int ` {0..<?n}" by auto
  moreover have "int ` {0..<Suc ?n} = insert (int ?n) (int ` {0..<?n})" by auto
  ultimately have c': "contiguous self ?d'"
    unfolding contiguous_iff nums len' using old by simp
  show ?thesis using a wf' c' by blast
qed

lemma ex_dense_second:
  "example_option 2 1 1 \<in> set (option_set (example_vote 1 2 3) (example_db [0, 1, 2]))"
  by code_simp

section \<open>Stage gating\<close>

text \<open>
  C9: \<open>canBeModified\<close> is true exactly when the stage of the vote's status is INIT, and it
  is false for the stages STAGED, OPEN, CLOSE and PUBLIC.
\<close>

theorem canBeModified_iff_init:
  "canBeModified self = (stage (status self) = INIT)
   \<and> canBeModified (self\<lparr>status := (status self)\<lparr>stage := INIT\<rparr>\<rparr>)
   \<and> \<not> canBeModified (self\<lparr>status := (status self)\<lparr>stage := STAGED\<rparr>\<rparr>)
   \<and> \<not> canBeModified (self\<lparr>status := (status self)\<lparr>stage := OPEN\<rparr>\<rparr>)
   \<and> \<not> canBeModified (self\<lparr>status := (status self)\<lparr>stage := CLOSE\<rparr>\<rparr>)
   \<and> \<not> canBeModified (self\<lparr>status := (status self)\<lparr>stage := PUBLIC\<rparr>\<rparr>)"
  by (simp add: canBeModified_def INIT_def STAGED_def OPEN_def CLOSE_def PUBLIC_def)

section \<open>Renumbering\<close>

text \<open>
  C2, as the code has it: for every vote whose options carry non-negative numbers (possibly
  with gaps), \<open>renumberOptions\<close> returns, and afterwards the numbers of the vote's options
  are pairwise distinct and are exactly \<open>0, ..., count - 1\<close>; the table holds the same rows
  at the same positions (same ids); two options of the vote whose numbers were in strict
  order before are in the same strict order after; and the tally \<open>count\<close> of every row is
  unchanged.
\<close>

theorem renumberOptions_correct:
  assumes "wf_db d" and "\<forall>r \<in> set (option_set self d). 0 \<le> number r"
  shows "\<exists>d'. renumberOptions self d = Inr d'
     \<and> distinct (map number (option_set self d'))
     \<and> set (map number (option_set self d')) = {0..<int (length (option_set self d'))}
     \<and> map oid (options d') = map oid (options d)
     \<and> (\<forall>a < length (options d). \<forall>b < length (options d).
           vote (options d ! a) = vid self \<and> vote (options d ! b) = vid self
           \<and> number (options d ! a) < number (options d ! b)
           \<longrightarrow> number (options d' ! a) < number (options d' ! b))
     \<and> map count (options d') = map count (options d)"
proof -
  from renumberOptions_succeeds[OF assms] obtain d' where r: "renumberOptions self d = Inr d'" ..
  have c: "contiguous self d'" by (rule renumbered_contiguous[OF assms(1) r])
  have 1: "distinct (map number (option_set self d'))"
    using c by (simp add: contiguous_iff)
  have 2: "set (map number (option_set self d')) = {0..<int (length (option_set self d'))}"
    using c by (simp add: contiguous_iff image_int_atLeastLessThan)
  have 3: "map oid (options d') = map oid (options d)" by (rule renumbered_ids[OF assms(1) r])
  have 4: "\<forall>a < length (options d). \<forall>b < length (options d).
           vote (options d ! a) = vid self \<and> vote (options d ! b) = vid self
           \<and> number (options d ! a) < number (options d ! b)
           \<longrightarrow> number (options d' ! a) < number (options d' ! b)"
    using renumbered_order[OF assms(1) r] by blast
  have "map count (map (\<lambda>r. r\<lparr>number := 0\<rparr>) (options d'))
        = map count (map (\<lambda>r. r\<lparr>number := 0\<rparr>) (options d))"
    using renumbered_fields[OF assms(1) r] by simp
  then have 5: "map count (options d') = map count (options d)" by (simp add: comp_def)
  show ?thesis using r 1 2 3 4 5 by blast
qed

text \<open>
  The instance of the specification: the numbers 5, 2, 9, 0 (options 1, 2, 3, 4) become
  2, 1, 3, 0.
\<close>

theorem renumberOptions_correct_witness:
  "wf_db (example_db [5, 2, 9, 0])
   \<and> list_all (\<lambda>r. 0 \<le> number r) (option_set (example_vote 1 2 3) (example_db [5, 2, 9, 0]))
   \<and> (\<exists>d'. renumberOptions (example_vote 1 2 3) (example_db [5, 2, 9, 0]) = Inr d'
         \<and> map number (option_set (example_vote 1 2 3) d') = [2, 1, 3, 0]
         \<and> set (map number (option_set (example_vote 1 2 3) d'))
             = {0..<int (length (option_set (example_vote 1 2 3) d'))})"
proof -
  have n: "list_all (\<lambda>r. 0 \<le> number r) (option_set (example_vote 1 2 3) (example_db [5, 2, 9, 0]))"
    by code_simp
  obtain d' where d': "renumberOptions (example_vote 1 2 3) (example_db [5, 2, 9, 0]) = Inr d'"
    and s: "set (map number (option_set (example_vote 1 2 3) d'))
             = {0..<int (length (option_set (example_vote 1 2 3) d'))}"
    using renumberOptions_correct[OF ex_tampered_wf ex_tampered_nonneg] by blast
  have "map number (option_set (example_vote 1 2 3)
           (projr (renumberOptions (example_vote 1 2 3) (example_db [5, 2, 9, 0])))) = [2, 1, 3, 0]"
    by code_simp
  then have "map number (option_set (example_vote 1 2 3) d') = [2, 1, 3, 0]"
    by (simp only: d' sum.sel)
  with s have "\<exists>d'. renumberOptions (example_vote 1 2 3) (example_db [5, 2, 9, 0]) = Inr d'
         \<and> map number (option_set (example_vote 1 2 3) d') = [2, 1, 3, 0]
         \<and> set (map number (option_set (example_vote 1 2 3) d'))
             = {0..<int (length (option_set (example_vote 1 2 3) d'))}"
    unfolding d' by (intro exI[of _ d'] conjI refl)
  with ex_tampered_wf n show ?thesis by (intro conjI)
qed

text \<open>
  The claim as stated, for any numbering, fails on negative numbers: with the numbers
  \<open>-1\<close> and \<open>0\<close> the first \<open>save()\<close> of the loop writes number 0 to the first option
  while the second still holds it, the database refuses it, and the call leaves with
  \<open>IntegrityError\<close> and the numbering as it was.
\<close>

theorem renumberOptions_negative_counterexample:
  "wf_db (example_db [-1, 0])
   \<and> renumberOptions (example_vote 1 2 3) (example_db [-1, 0]) = Inl IntegrityError
   \<and> map number (option_set (example_vote 1 2 3) (example_db [-1, 0])) = [-1, 0]"
  by code_simp

text \<open>
  C6, as the code has it: when \<open>renumberOptions\<close> has returned, a second call returns too
  and leaves every row of the Option table and of the Vote table as the first call left
  it; but the second call is not free of writes: it saves every option of the vote again,
  one \<open>save()\<close> per option in the order of their numbers.
\<close>

theorem renumberOptions_twice:
  assumes "wf_db d" and "renumberOptions self d = Inr d1"
  shows "\<exists>d2. renumberOptions self d1 = Inr d2
     \<and> options d2 = options d1 \<and> votes d2 = votes d1
     \<and> writes d2 = writes d1 @
           map (\<lambda>r. OptionSaved (the (oid r))) (order_by_number (option_set self d1))"
proof -
  have w: "wf_db d1" by (rule renumbered_wf[OF assms])
  have c: "contiguous self d1" by (rule renumbered_contiguous[OF assms])
  show ?thesis unfolding renumber_contiguous_unchanged[OF w c] by simp
qed

theorem renumberOptions_twice_witness:
  "wf_db (example_db [5, 2, 9, 0])
   \<and> (\<exists>d1 d2. renumberOptions (example_vote 1 2 3) (example_db [5, 2, 9, 0]) = Inr d1
         \<and> renumberOptions (example_vote 1 2 3) d1 = Inr d2
         \<and> options d2 = options d1 \<and> votes d2 = votes d1
         \<and> length (writes d2) = length (writes d1) + 4)"
proof -
  from renumberOptions_succeeds[OF ex_tampered_wf ex_tampered_nonneg]
  obtain d1 where r: "renumberOptions (example_vote 1 2 3) (example_db [5, 2, 9, 0]) = Inr d1" ..
  from renumberOptions_twice[OF ex_tampered_wf r]
  obtain d2 where d2: "renumberOptions (example_vote 1 2 3) d1 = Inr d2"
    "options d2 = options d1" "votes d2 = votes d1"
    "writes d2 = writes d1 @
       map (\<lambda>r. OptionSaved (the (oid r))) (order_by_number (option_set (example_vote 1 2 3) d1))"
    by blast
  have "length (option_set (example_vote 1 2 3) d1)
        = length (option_set (example_vote 1 2 3) (example_db [5, 2, 9, 0]))"
    using renumbered_option_set[OF ex_tampered_wf r] by simp
  also have "\<dots> = 4" by code_simp
  finally have "length (writes d2) = length (writes d1) + 4"
    using d2(4) by (simp add: order_by_number_def)
  with r d2 have "\<exists>d1 d2. renumberOptions (example_vote 1 2 3) (example_db [5, 2, 9, 0]) = Inr d1
         \<and> renumberOptions (example_vote 1 2 3) d1 = Inr d2
         \<and> options d2 = options d1 \<and> votes d2 = votes d1
         \<and> length (writes d2) = length (writes d1) + 4"
    by (intro exI[of _ d1] exI[of _ d2] conjI)
  with ex_tampered_wf show ?thesis by (intro conjI)
qed

text \<open>
  The claim as stated, that the second call produces no further writes, fails already on a
  vote whose two options are numbered 0 and 1: each call saves both options.
\<close>

theorem renumberOptions_twice_counterexample:
  "renumberOptions (example_vote 1 2 3) (example_db [0, 1])
     = Inr ((example_db [0, 1])\<lparr>writes := [OptionSaved 1, OptionSaved 2]\<rparr>)
   \<and> renumberOptions (example_vote 1 2 3)
        ((example_db [0, 1])\<lparr>writes := [OptionSaved 1, OptionSaved 2]\<rparr>)
     = Inr ((example_db [0, 1])\<lparr>writes := [OptionSaved 1, OptionSaved 2,
                                             OptionSaved 1, OptionSaved 2]\<rparr>)"
  by code_simp

section \<open>An option that does not belong to the vote\<close>

text \<open>
  C5: when the id of the given option is not among the ids of the vote's options,
  \<open>deleteOption\<close>, \<open>moveUpOption\<close> and \<open>moveDownOption\<close> raise \<open>ValueError\<close> and change
  nothing: the database (the rows of every vote's options, the Vote rows with their
  \<open>min_votes\<close> and \<open>max_votes\<close>, the write log) and the instances \<open>self\<close> and \<open>option\<close>
  are what they were before the call.
\<close>

theorem foreign_option_rejected:
  assumes "oid option \<notin> set (map oid (option_set self d))"
  shows "deleteOption self option d = (Some ValueError, self, option, d)
     \<and> moveUpOption self option d = (Some ValueError, option, d)
     \<and> moveDownOption self option d = (Some ValueError, option, d)"
  using assms
  by (simp add: deleteOption_def moveUpOption_def moveDownOption_def values_list_id_def)

text \<open>The option of vote 2 is given to vote 1.\<close>

theorem foreign_option_rejected_witness:
  "list_all (\<lambda>r. oid r \<noteq> oid (example_option 100 2 0))
       (option_set (example_vote 1 2 3) (example_db [0, 1, 2]))
   \<and> example_option 100 2 0 \<in> set (option_set (example_vote 2 0 1) (example_db [0, 1, 2]))
   \<and> deleteOption (example_vote 1 2 3) (example_option 100 2 0) (example_db [0, 1, 2])
       = (Some ValueError, example_vote 1 2 3, example_option 100 2 0, example_db [0, 1, 2])
   \<and> moveUpOption (example_vote 1 2 3) (example_option 100 2 0) (example_db [0, 1, 2])
       = (Some ValueError, example_option 100 2 0, example_db [0, 1, 2])
   \<and> moveDownOption (example_vote 1 2 3) (example_option 100 2 0) (example_db [0, 1, 2])
       = (Some ValueError, example_option 100 2 0, example_db [0, 1, 2])"
proof -
  have a: "list_all (\<lambda>r. oid r \<noteq> oid (example_option 100 2 0))
       (option_set (example_vote 1 2 3) (example_db [0, 1, 2]))" by code_simp
  have b: "example_option 100 2 0 \<in> set (option_set (example_vote 2 0 1) (example_db [0, 1, 2]))"
    by code_simp
  from foreign_option_rejected[OF ex_foreign] a b show ?thesis by (intro conjI) blast+
qed

section \<open>Adding an option\<close>

text \<open>
  C8, as the code has it: for every vote whose options carry non-negative numbers,
  \<open>addOption\<close> renumbers the existing options and then appends exactly one new row to the
  renumbered table (one \<open>save()\<close>, with an id no row had); the new option belongs to the
  vote, its number is the count of the vote's options before the call, and its name is
  \<open>Option #\<close> followed by that count plus one; the vote has one option more.
\<close>

theorem addOption_appends:
  assumes "wf_db d" and "\<forall>r \<in> set (option_set self d). 0 \<le> number r"
  shows "\<exists>d1 opt k d'. renumberOptions self d = Inr d1
     \<and> addOption self d = (None, d')
     \<and> d' = d1\<lparr>options := options d1 @ [opt], writes := writes d1 @ [OptionSaved k]\<rparr>
     \<and> oid opt = Some k \<and> Some k \<notin> set (map oid (options d1))
     \<and> vote opt = vid self
     \<and> number opt = int (length (option_set self d))
     \<and> name opt = ''Option #'' @ str (int (length (option_set self d)) + 1)
     \<and> length (option_set self d') = Suc (length (option_set self d))"
proof -
  from renumberOptions_succeeds[OF assms] obtain d1 where r: "renumberOptions self d = Inr d1" ..
  let ?n = "int (length (option_set self d))"
  let ?k = "fresh_id (options d1)"
  let ?opt = "(new_option (vid self) ?n (''Option #'' @ str (?n + 1)))\<lparr>oid := Some ?k\<rparr>"
  let ?d' = "d1\<lparr>options := options d1 @ [?opt], writes := writes d1 @ [OptionSaved ?k]\<rparr>"
  have a: "addOption self d = (None, ?d')" by (rule addOption_result[OF assms(1) r])
  have l: "length (option_set self ?d') = Suc (length (option_set self d))"
    by (simp add: option_set_append new_option_def renumbered_length[OF assms(1) r])
  have p: "oid ?opt = Some ?k" "vote ?opt = vid self" "number ?opt = ?n"
    "name ?opt = ''Option #'' @ str (?n + 1)"
    by (simp_all add: new_option_def)
  show ?thesis
    using r a l p fresh_id_notin[of "options d1"]
    by (intro exI[of _ d1] exI[of _ ?opt] exI[of _ ?k] exI[of _ ?d'] conjI) simp_all
qed

text \<open>
  The instance of the specification: a vote with three options numbered 0, 1, 2 has four
  options afterwards, the new one numbered 3 and named \<open>Option #4\<close>.
\<close>

theorem addOption_appends_witness:
  "wf_db (example_db [0, 1, 2])
   \<and> map number (option_set (example_vote 1 2 3) (example_db [0, 1, 2])) = [0, 1, 2]
   \<and> (\<exists>d'. addOption (example_vote 1 2 3) (example_db [0, 1, 2]) = (None, d')
         \<and> length (option_set (example_vote 1 2 3) d') = 4
         \<and> number (last (options d')) = 3
         \<and> name (last (options d')) = ''Option #4'')"
proof -
  have n: "map number (option_set (example_vote 1 2 3) (example_db [0, 1, 2])) = [0, 1, 2]"
    by code_simp
  have len: "length (option_set (example_vote 1 2 3) (example_db [0, 1, 2])) = 3"
    by code_simp
  have s: "str 4 = ''4''" by code_simp
  from addOption_appends[OF ex_dense_wf ex_dense_nonneg]
  obtain d1 opt k d' where
    a: "addOption (example_vote 1 2 3) (example_db [0, 1, 2]) = (None, d')"
    and d': "d' = d1\<lparr>options := options d1 @ [opt], writes := writes d1 @ [OptionSaved k]\<rparr>"
    and o: "number opt = int (length (option_set (example_vote 1 2 3) (example_db [0, 1, 2])))"
      "name opt = ''Option #'' @
          str (int (length (option_set (example_vote 1 2 3) (example_db [0, 1, 2]))) + 1)"
      "length (option_set (example_vote 1 2 3) d')
         = Suc (length (option_set (example_vote 1 2 3) (example_db [0, 1, 2])))"
    by blast
  have "length (option_set (example_vote 1 2 3) d') = 4" using o(3) len by simp
  moreover have "number (last (options d')) = 3" using o(1) len by (simp add: d')
  moreover have "name (last (options d')) = ''Option #4''" using o(2) len s by (simp add: d')
  ultimately have "\<exists>d'. addOption (example_vote 1 2 3) (example_db [0, 1, 2]) = (None, d')
         \<and> length (option_set (example_vote 1 2 3) d') = 4
         \<and> number (last (options d')) = 3
         \<and> name (last (options d')) = ''Option #4''"
    using a by (intro exI[of _ d'] conjI)
  with ex_dense_wf n show ?thesis by (intro conjI)
qed

text \<open>
  The claim as stated, for every vote, fails where the renumbering step does: with the
  numbers \<open>-1\<close> and \<open>0\<close> the call leaves with \<open>IntegrityError\<close> and creates nothing.
\<close>

theorem addOption_negative_counterexample:
  "wf_db (example_db [-1, 0])
   \<and> addOption (example_vote 1 2 3) (example_db [-1, 0])
       = (Some IntegrityError, example_db [-1, 0])"
  by code_simp

text \<open>
  C10: whatever \<open>addOption\<close> does, it assigns nothing to the vote instance (the method
  returns no new \<open>self\<close>) and leaves the Vote table as it was, so \<open>min_votes\<close> and
  \<open>max_votes\<close> are unchanged. When it raises, the database is unchanged. When it returns,
  the table has one row more; the rows before the last are the pre-existing options (same
  ids, same positions) and each of them keeps every field but its number: its vote, name,
  description, picture and link fields and tally are unchanged; the new, last row belongs
  to this vote, has an id that no row had, count 0, an empty description, and empty picture
  and link fields.
\<close>

theorem addOption_frame:
  assumes "wf_db d"
  shows "case addOption self d of
           (Some e, d') \<Rightarrow> d' = d
         | (None, d') \<Rightarrow>
             votes d' = votes d
             \<and> length (options d') = Suc (length (options d))
             \<and> map oid (butlast (options d')) = map oid (options d)
             \<and> map name (butlast (options d')) = map name (options d)
             \<and> map description (butlast (options d')) = map description (options d)
             \<and> map count (butlast (options d')) = map count (options d)
             \<and> count (last (options d')) = 0
             \<and> description (last (options d')) = ''''
             \<and> picture_url (last (options d')) = ''''
             \<and> personal_link (last (options d')) = ''''
             \<and> link_name (last (options d')) = ''''
             \<and> map (\<lambda>r. r\<lparr>number := 0\<rparr>) (butlast (options d'))
                 = map (\<lambda>r. r\<lparr>number := 0\<rparr>) (options d)
             \<and> map vote (butlast (options d')) = map vote (options d)
             \<and> map picture_url (butlast (options d')) = map picture_url (options d)
             \<and> map personal_link (butlast (options d')) = map personal_link (options d)
             \<and> map link_name (butlast (options d')) = map link_name (options d)
             \<and> vote (last (options d')) = vid self
             \<and> oid (last (options d')) \<noteq> None
             \<and> oid (last (options d')) \<notin> set (map oid (options d))"
proof (cases "renumberOptions self d")
  case (Inl e)
  then show ?thesis by (simp add: addOption_error)
next
  case (Inr d1)
  have f: "map (\<lambda>r. r\<lparr>number := 0\<rparr>) (options d1) = map (\<lambda>r. r\<lparr>number := 0\<rparr>) (options d)"
    by (rule renumbered_fields[OF assms Inr])
  have "map name (map (\<lambda>r. r\<lparr>number := 0\<rparr>) (options d1))
        = map name (map (\<lambda>r. r\<lparr>number := 0\<rparr>) (options d))"
       "map description (map (\<lambda>r. r\<lparr>number := 0\<rparr>) (options d1))
        = map description (map (\<lambda>r. r\<lparr>number := 0\<rparr>) (options d))"
       "map count (map (\<lambda>r. r\<lparr>number := 0\<rparr>) (options d1))
        = map count (map (\<lambda>r. r\<lparr>number := 0\<rparr>) (options d))"
       "map vote (map (\<lambda>r. r\<lparr>number := 0\<rparr>) (options d1))
        = map vote (map (\<lambda>r. r\<lparr>number := 0\<rparr>) (options d))"
       "map picture_url (map (\<lambda>r. r\<lparr>number := 0\<rparr>) (options d1))
        = map picture_url (map (\<lambda>r. r\<lparr>number := 0\<rparr>) (options d))"
       "map personal_link (map (\<lambda>r. r\<lparr>number := 0\<rparr>) (options d1))
        = map personal_link (map (\<lambda>r. r\<lparr>number := 0\<rparr>) (options d))"
       "map link_name (map (\<lambda>r. r\<lparr>number := 0\<rparr>) (options d1))
        = map link_name (map (\<lambda>r. r\<lparr>number := 0\<rparr>) (options d))"
    using f by simp_all
  then have g: "map name (options d1) = map name (options d)"
    "map description (options d1) = map description (options d)"
    "map count (options d1) = map count (options d)"
    "map vote (options d1) = map vote (options d)"
    "map picture_url (options d1) = map picture_url (options d)"
    "map personal_link (options d1) = map personal_link (options d)"
    "map link_name (options d1) = map link_name (options d)"
    by (simp_all add: comp_def)
  have l: "length (options d1) = length (options d)"
    using renumbered_ids[OF assms Inr] by (metis length_map)
  have ids: "map oid (options d1) = map oid (options d)" by (rule renumbered_ids[OF assms Inr])
  have new: "Some (fresh_id (options d1)) \<notin> set (map oid (options d))"
    using fresh_id_notin[of "options d1"] unfolding ids .
  show ?thesis
    using f g l ids new renumberOptions_shape(2)[OF assms Inr]
    by (simp add: addOption_result[OF assms Inr] new_option_def)
qed

text \<open>
  On the numbers 5, 2, 9, 0: the call returns, the four options of the vote and the option
  of the other vote keep every field but their number, and the new, fifth row of the table
  belongs to vote 1.
\<close>

theorem addOption_frame_witness:
  "wf_db (example_db [5, 2, 9, 0])
   \<and> (\<exists>d'. addOption (example_vote 1 2 3) (example_db [5, 2, 9, 0]) = (None, d')
         \<and> votes d' = votes (example_db [5, 2, 9, 0])
         \<and> map name (butlast (options d')) = map name (options (example_db [5, 2, 9, 0]))
         \<and> map count (butlast (options d')) = map count (options (example_db [5, 2, 9, 0]))
         \<and> count (last (options d')) = 0 \<and> description (last (options d')) = ''''
         \<and> map (\<lambda>r. r\<lparr>number := 0\<rparr>) (butlast (options d'))
             = map (\<lambda>r. r\<lparr>number := 0\<rparr>) (options (example_db [5, 2, 9, 0]))
         \<and> vote (last (options d')) = vid (example_vote 1 2 3))"
proof -
  have "fst (addOption (example_vote 1 2 3) (example_db [5, 2, 9, 0])) = None" by code_simp
  then obtain d' where d': "addOption (example_vote 1 2 3) (example_db [5, 2, 9, 0]) = (None, d')"
    by (cases "addOption (example_vote 1 2 3) (example_db [5, 2, 9, 0])") auto
  from addOption_frame[OF ex_tampered_wf, of "example_vote 1 2 3"]
  have p: "votes d' = votes (example_db [5, 2, 9, 0])
         \<and> map name (butlast (options d')) = map name (options (example_db [5, 2, 9, 0]))
         \<and> map count (butlast (options d')) = map count (options (example_db [5, 2, 9, 0]))
         \<and> count (last (options d')) = 0 \<and> description (last (options d')) = ''''
         \<and> map (\<lambda>r. r\<lparr>number := 0\<rparr>) (butlast (options d'))
             = map (\<lambda>r. r\<lparr>number := 0\<rparr>) (options (example_db [5, 2, 9, 0]))
         \<and> vote (last (options d')) = vid (example_vote 1 2 3)"
    unfolding d' by simp
  from d' p have "\<exists>d'. addOption (example_vote 1 2 3) (example_db [5, 2, 9, 0]) = (None, d')
         \<and> votes d' = votes (example_db [5, 2, 9, 0])
         \<and> map name (butlast (options d')) = map name (options (example_db [5, 2, 9, 0]))
         \<and> map count (butlast (options d')) = map count (options (example_db [5, 2, 9, 0]))
         \<and> count (last (options d')) = 0 \<and> description (last (options d')) = ''''
         \<and> map (\<lambda>r. r\<lparr>number := 0\<rparr>) (butlast (options d'))
             = map (\<lambda>r. r\<lparr>number := 0\<rparr>) (options (example_db [5, 2, 9, 0]))
         \<and> vote (last (options d')) = vid (example_vote 1 2 3)"
    by (intro exI[of _ d'] conjI) simp_all
  with ex_tampered_wf show ?thesis by (intro conjI)
qed

section \<open>Deleting an option\<close>

text \<open>
  C4, as the code has it: for every vote that is a row of the database, with
  \<open>min_votes \<le> max_votes\<close>, whose options carry non-negative numbers, and every option
  whose id is among the vote's options, \<open>deleteOption\<close> returns; the option's row is
  removed and every other row stays (the instance given loses its id); the vote has one
  option less; \<open>min_votes\<close> and \<open>max_votes\<close> of the vote instance are each the smaller of
  their old value and the new count, so neither is raised; the vote is persisted with
  these bounds; and afterwards \<open>min_votes \<le> max_votes \<le> new count\<close> holds and the numbers
  of the survivors are \<open>0, ..., new count - 1\<close>.
\<close>

theorem deleteOption_correct:
  assumes wf: "wf_db d" and self: "self \<in> set (votes d)"
    and bounds: "min_votes self \<le> max_votes self"
    and mem: "oid option \<in> set (map oid (option_set self d))"
    and nn: "\<forall>r \<in> set (option_set self d). 0 \<le> number r"
  shows "\<exists>self' d'. deleteOption self option d = (None, self', option\<lparr>oid := None\<rparr>, d')
     \<and> map oid (options d') = filter (\<lambda>k. k \<noteq> oid option) (map oid (options d))
     \<and> Suc (length (option_set self d')) = length (option_set self d)
     \<and> self' = self\<lparr>min_votes := min (min_votes self) (int (length (option_set self d'))),
                       max_votes := min (max_votes self) (int (length (option_set self d')))\<rparr>
     \<and> min_votes self' \<le> min_votes self \<and> max_votes self' \<le> max_votes self
     \<and> self' \<in> set (votes d')
     \<and> min_votes self' \<le> max_votes self'
     \<and> max_votes self' \<le> int (length (option_set self d'))
     \<and> contiguous self d'"
proof -
  from deleteOption_steps[OF wf self mem nn] obtain self2 d2 d3 where
    s2: "self2 = self\<lparr>min_votes := min (min_votes self) (int (length (option_set self d2))),
                   max_votes := min (max_votes self) (int (length (option_set self d2)))\<rparr>"
    and wf2: "wf_db d2"
    and t2: "options d2 = filter (\<lambda>r. oid r \<noteq> oid option) (options d)"
    and len: "Suc (length (option_set self d2)) = length (option_set self d)"
    and pers2: "self2 \<in> set (votes d2)"
    and r: "renumberOptions self2 d2 = Inr d3"
    and res: "deleteOption self option d = (None, self2, option\<lparr>oid := None\<rparr>, d3)"
    by blast
  have v: "vid self = vid self2" by (simp add: s2)
  have l3: "length (option_set self d3) = length (option_set self d2)"
    using renumbered_length[OF wf2 r] option_set_vid[OF v] by simp
  have ids: "map oid (options d3) = filter (\<lambda>k. k \<noteq> oid option) (map oid (options d))"
    using renumbered_ids[OF wf2 r] by (simp add: t2 filter_map comp_def)
  have pers: "self2 \<in> set (votes d3)"
    using pers2 by (simp add: renumberOptions_shape(2)[OF wf2 r])
  have cont: "contiguous self d3"
    using renumbered_contiguous[OF wf2 r] contiguous_vid[OF v, of d3] by simp
  have m: "min_votes self2 = min (min_votes self) (int (length (option_set self d2)))"
    "max_votes self2 = min (max_votes self) (int (length (option_set self d2)))"
    by (subst s2, simp)+
  show ?thesis
  proof (intro exI[of _ self2] exI[of _ d3] conjI)
    show "deleteOption self option d = (None, self2, option\<lparr>oid := None\<rparr>, d3)" by (rule res)
    show "map oid (options d3) = filter (\<lambda>k. k \<noteq> oid option) (map oid (options d))"
      by (rule ids)
    show "Suc (length (option_set self d3)) = length (option_set self d)" using len l3 by simp
    show "self2 = self\<lparr>min_votes := min (min_votes self) (int (length (option_set self d3))),
                       max_votes := min (max_votes self) (int (length (option_set self d3)))\<rparr>"
      using s2 by (simp add: l3)
    show "min_votes self2 \<le> min_votes self" by (simp add: m)
    show "max_votes self2 \<le> max_votes self" by (simp add: m)
    show "self2 \<in> set (votes d3)" by (rule pers)
    show "min_votes self2 \<le> max_votes self2" using bounds by (simp add: m min_def)
    show "max_votes self2 \<le> int (length (option_set self d3))" by (simp add: m l3)
    show "contiguous self d3" by (rule cont)
  qed
qed

text \<open>
  The instance of the specification: bounds 2 and 3, three options; after deleting one
  the count is 2, \<open>max_votes\<close> is 2, \<open>min_votes\<close> stays 2, and the survivors are numbered
  0 and 1.
\<close>

theorem deleteOption_correct_witness:
  "wf_db (example_db [0, 1, 2])
   \<and> min_votes (example_vote 1 2 3) = 2 \<and> max_votes (example_vote 1 2 3) = 3
   \<and> length (option_set (example_vote 1 2 3) (example_db [0, 1, 2])) = 3
   \<and> (\<exists>self' d'. deleteOption (example_vote 1 2 3) (example_option 2 1 1) (example_db [0, 1, 2])
            = (None, self', (example_option 2 1 1)\<lparr>oid := None\<rparr>, d')
         \<and> length (option_set (example_vote 1 2 3) d') = 2
         \<and> min_votes self' = 2 \<and> max_votes self' = 2
         \<and> sort (map number (option_set (example_vote 1 2 3) d')) = [0, 1])"
proof -
  have b: "min_votes (example_vote 1 2 3) = 2" "max_votes (example_vote 1 2 3) = 3"
    by (simp_all add: example_vote_def)
  have "min_votes (example_vote 1 2 3) \<le> max_votes (example_vote 1 2 3)" using b by simp
  from deleteOption_correct[OF ex_dense_wf ex_dense_vote this ex_dense_member ex_dense_nonneg]
  obtain self' d' where
    r: "deleteOption (example_vote 1 2 3) (example_option 2 1 1) (example_db [0, 1, 2])
            = (None, self', (example_option 2 1 1)\<lparr>oid := None\<rparr>, d')"
    and l: "Suc (length (option_set (example_vote 1 2 3) d'))
              = length (option_set (example_vote 1 2 3) (example_db [0, 1, 2]))"
    and s: "self' = (example_vote 1 2 3)\<lparr>
        min_votes := min (min_votes (example_vote 1 2 3))
                         (int (length (option_set (example_vote 1 2 3) d'))),
        max_votes := min (max_votes (example_vote 1 2 3))
                         (int (length (option_set (example_vote 1 2 3) d')))\<rparr>"
    and c: "contiguous (example_vote 1 2 3) d'"
    by blast
  have len: "length (option_set (example_vote 1 2 3) (example_db [0, 1, 2])) = 3" by code_simp
  have l2: "length (option_set (example_vote 1 2 3) d') = 2" using l len by simp
  have m: "min_votes self' = 2" "max_votes self' = 2" using s b l2 by simp_all
  have "[0..<2] = [0, Suc 0]" by (simp add: upt_rec)
  then have n: "sort (map number (option_set (example_vote 1 2 3) d')) = [0, 1]"
    using c l2 by (simp add: contiguous_def)
  from r l2 m n
  have "\<exists>self' d'. deleteOption (example_vote 1 2 3) (example_option 2 1 1) (example_db [0, 1, 2])
            = (None, self', (example_option 2 1 1)\<lparr>oid := None\<rparr>, d')
         \<and> length (option_set (example_vote 1 2 3) d') = 2
         \<and> min_votes self' = 2 \<and> max_votes self' = 2
         \<and> sort (map number (option_set (example_vote 1 2 3) d')) = [0, 1]"
    by (intro exI[of _ self'] exI[of _ d'] conjI)
  with ex_dense_wf b len show ?thesis by (intro conjI)
qed

text \<open>
  The claim as stated, without a condition on the numbers, fails where the final
  renumbering does: with the numbers \<open>-1\<close>, \<open>0\<close> and \<open>5\<close>, deleting the option at 5
  leaves with \<open>IntegrityError\<close>; the atomic block restores the database, so the option is
  still there, while the vote instance keeps the clamped \<open>max_votes = 2\<close>.
\<close>

theorem deleteOption_negative_counterexample:
  "wf_db (example_db [-1, 0, 5])
   \<and> example_vote 1 2 3 \<in> set (votes (example_db [-1, 0, 5]))
   \<and> example_option 3 1 5 \<in> set (option_set (example_vote 1 2 3) (example_db [-1, 0, 5]))
   \<and> deleteOption (example_vote 1 2 3) (example_option 3 1 5) (example_db [-1, 0, 5])
       = (Some IntegrityError, example_vote 1 2 2, (example_option 3 1 5)\<lparr>oid := None\<rparr>,
          example_db [-1, 0, 5])"
  by code_simp

section \<open>Moving an option\<close>

text \<open>
  C3 says that on a vote whose options are numbered \<open>0, ..., n - 1\<close>, \<open>moveUpOption\<close> on
  the option at \<open>k < n - 1\<close> swaps it with the option at \<open>k + 1\<close>, and \<open>moveDownOption\<close>
  on the option at \<open>k > 0\<close> swaps it with the option at \<open>k - 1\<close>. The code does not get
  there: it saves the neighbour first, with the number that the row of the moved option
  still holds, which \<open>Option.Meta.unique_together\<close> forbids. For every such vote and
  option the call leaves with \<open>IntegrityError\<close>, the database is what it was before the
  call, and the caller's instance carries the number it was to get.
\<close>

theorem move_swap_refused:
  assumes "wf_db d" and "contiguous self d" and "option \<in> set (option_set self d)"
  shows "(number option < int (length (option_set self d)) - 1 \<longrightarrow>
            moveUpOption self option d
              = (Some IntegrityError, option\<lparr>number := number option + 1\<rparr>, d))
       \<and> (0 < number option \<longrightarrow>
            moveDownOption self option d
              = (Some IntegrityError, option\<lparr>number := number option - 1\<rparr>, d))"
proof (intro conjI impI)
  assume "number option < int (length (option_set self d)) - 1"
  then show "moveUpOption self option d
              = (Some IntegrityError, option\<lparr>number := number option + 1\<rparr>, d)"
    by (simp add: moveUpOption_dense[OF assms])
next
  assume "0 < number option"
  then show "moveDownOption self option d
              = (Some IntegrityError, option\<lparr>number := number option - 1\<rparr>, d)"
    by (simp add: moveDownOption_dense[OF assms])
qed

text \<open>
  The instance of the specification: options numbered 0 to 4, the option at number 2 is
  moved up, and moved down.
\<close>

theorem move_swap_refused_witness:
  "wf_db (example_db [0, 1, 2, 3, 4])
   \<and> map number (option_set (example_vote 1 2 3) (example_db [0, 1, 2, 3, 4])) = [0, 1, 2, 3, 4]
   \<and> example_option 3 1 2 \<in> set (option_set (example_vote 1 2 3) (example_db [0, 1, 2, 3, 4]))
   \<and> moveUpOption (example_vote 1 2 3) (example_option 3 1 2) (example_db [0, 1, 2, 3, 4])
       = (Some IntegrityError, example_option 3 1 3, example_db [0, 1, 2, 3, 4])
   \<and> moveDownOption (example_vote 1 2 3) (example_option 3 1 2) (example_db [0, 1, 2, 3, 4])
       = (Some IntegrityError, example_option 3 1 1, example_db [0, 1, 2, 3, 4])"
proof -
  have n: "map number (option_set (example_vote 1 2 3) (example_db [0, 1, 2, 3, 4])) = [0, 1, 2, 3, 4]"
    by code_simp
  have len: "length (option_set (example_vote 1 2 3) (example_db [0, 1, 2, 3, 4])) = 5"
    by code_simp
  have o: "number (example_option 3 1 2) = 2" by (simp add: example_option_def)
  have u: "(example_option 3 1 2)\<lparr>number := number (example_option 3 1 2) + 1\<rparr>
             = example_option 3 1 3"
    "(example_option 3 1 2)\<lparr>number := number (example_option 3 1 2) - 1\<rparr>
             = example_option 3 1 1"
    by (simp_all add: example_option_def)
  have p: "number (example_option 3 1 2)
             < int (length (option_set (example_vote 1 2 3) (example_db [0, 1, 2, 3, 4]))) - 1"
    "0 < number (example_option 3 1 2)"
    unfolding len o by simp_all
  from move_swap_refused[OF ex_five_wf ex_five_dense ex_five_member] p
  have "moveUpOption (example_vote 1 2 3) (example_option 3 1 2) (example_db [0, 1, 2, 3, 4])
       = (Some IntegrityError, example_option 3 1 3, example_db [0, 1, 2, 3, 4])"
    "moveDownOption (example_vote 1 2 3) (example_option 3 1 2) (example_db [0, 1, 2, 3, 4])
       = (Some IntegrityError, example_option 3 1 1, example_db [0, 1, 2, 3, 4])"
    unfolding u by blast+
  with ex_five_wf n ex_five_member show ?thesis by (intro conjI)
qed

text \<open>
  C7, as the code has it: on a vote whose options are numbered \<open>0, ..., n - 1\<close>,
  \<open>moveDownOption\<close> on the option at number 0 and \<open>moveUpOption\<close> on the option at number
  \<open>n - 1\<close> return without an error, the instance is unchanged, and every row of the Option
  table and of the Vote table is what it was (the renumbering that both methods start
  with has saved every option of the vote, each with the number it had).
\<close>

theorem move_at_boundary:
  assumes "wf_db d" and "contiguous self d" and "option \<in> set (option_set self d)"
  shows "(number option = 0 \<longrightarrow>
            (\<exists>d'. moveDownOption self option d = (None, option, d')
                 \<and> options d' = options d \<and> votes d' = votes d))
       \<and> (number option = int (length (option_set self d)) - 1 \<longrightarrow>
            (\<exists>d'. moveUpOption self option d = (None, option, d')
                 \<and> options d' = options d \<and> votes d' = votes d))"
  by (simp add: moveUpOption_dense[OF assms] moveDownOption_dense[OF assms])

theorem move_at_boundary_witness:
  "wf_db (example_db [0, 1, 2])
   \<and> map number (option_set (example_vote 1 2 3) (example_db [0, 1, 2])) = [0, 1, 2]
   \<and> (\<exists>d'. moveDownOption (example_vote 1 2 3) (example_option 1 1 0) (example_db [0, 1, 2])
            = (None, example_option 1 1 0, d')
         \<and> options d' = options (example_db [0, 1, 2])
         \<and> votes d' = votes (example_db [0, 1, 2]))
   \<and> (\<exists>d'. moveUpOption (example_vote 1 2 3) (example_option 3 1 2) (example_db [0, 1, 2])
            = (None, example_option 3 1 2, d')
         \<and> options d' = options (example_db [0, 1, 2])
         \<and> votes d' = votes (example_db [0, 1, 2]))"
proof -
  have n: "map number (option_set (example_vote 1 2 3) (example_db [0, 1, 2])) = [0, 1, 2]"
    by code_simp
  have len: "length (option_set (example_vote 1 2 3) (example_db [0, 1, 2])) = 3"
    by code_simp
  have o: "number (example_option 1 1 0) = 0" "number (example_option 3 1 2) = 2"
    by (simp_all add: example_option_def)
  have p: "number (example_option 3 1 2)
             = int (length (option_set (example_vote 1 2 3) (example_db [0, 1, 2]))) - 1"
    unfolding len o by simp
  from move_at_boundary[OF ex_dense_wf ex_dense_dense ex_dense_first] o(1)
  have a: "\<exists>d'. moveDownOption (example_vote 1 2 3) (example_option 1 1 0) (example_db [0, 1, 2])
            = (None, example_option 1 1 0, d')
         \<and> options d' = options (example_db [0, 1, 2])
         \<and> votes d' = votes (example_db [0, 1, 2])"
    by blast
  from move_at_boundary[OF ex_dense_wf ex_dense_dense ex_dense_last] p
  have b: "\<exists>d'. moveUpOption (example_vote 1 2 3) (example_option 3 1 2) (example_db [0, 1, 2])
            = (None, example_option 3 1 2, d')
         \<and> options d' = options (example_db [0, 1, 2])
         \<and> votes d' = votes (example_db [0, 1, 2])"
    by blast
  from ex_dense_wf n a b show ?thesis by (intro conjI)
qed

text \<open>
  The claim as stated, for every vote, fails on a numbering with a gap: with the numbers
  0 and 5, \<open>moveDownOption\<close> on the option at 0 returns without an error, but the
  renumbering it starts with has rewritten the other option's row from 5 to 1.
\<close>

theorem move_at_boundary_counterexample:
  "wf_db (example_db [0, 5])
   \<and> example_option 1 1 0 \<in> set (option_set (example_vote 1 2 3) (example_db [0, 5]))
   \<and> number (example_option 1 1 0) = 0
   \<and> moveDownOption (example_vote 1 2 3) (example_option 1 1 0) (example_db [0, 5])
       = (None, example_option 1 1 0,
          \<lparr>options = [example_option 1 1 0, example_option 2 1 1, example_option 100 2 0],
           votes = votes (example_db [0, 5]),
           writes = [OptionSaved 1, OptionSaved 2]\<rparr>)
   \<and> options (example_db [0, 5])
       = [example_option 1 1 0, example_option 2 1 5, example_option 100 2 0]
   \<and> example_option 2 1 1 \<noteq> example_option 2 1 5"
  by code_simp

section \<open>The numbering after a sequence of calls\<close>

text \<open>
  C1 says that after any sequence of add, delete and move calls that complete without
  error the numbers of the vote's options are pairwise distinct and are exactly
  \<open>0, ..., count - 1\<close>. One call suffices to break it. The options 1, 2, 3 of the vote
  carry the numbers 3, 7, 8, and \<open>moveDownOption\<close> is called with option 1 as loaded from
  the database. The renumbering rewrites the rows to 0, 1, 2, but the instance still says
  3; the row now at number \<open>3 - 1\<close> is option 3, which is saved with number 3, and the
  instance is saved with number 2. Both writes are accepted, the call returns, and the
  numbers of options 1, 2, 3 are 2, 1, 3: not \<open>0, 1, 2\<close>.
\<close>

theorem stale_number_breaks_numbering:
  "wf_db (example_db [3, 7, 8])
   \<and> example_option 1 1 3 \<in> set (option_set (example_vote 1 2 3) (example_db [3, 7, 8]))
   \<and> moveDownOption (example_vote 1 2 3) (example_option 1 1 3) (example_db [3, 7, 8])
       = (None, example_option 1 1 2,
          \<lparr>options = [example_option 1 1 2, example_option 2 1 1, example_option 3 1 3,
                      example_option 100 2 0],
           votes = votes (example_db [3, 7, 8]),
           writes = [OptionSaved 1, OptionSaved 2, OptionSaved 3, OptionSaved 3, OptionSaved 1]\<rparr>)
   \<and> sort (map number [example_option 1 1 2, example_option 2 1 1, example_option 3 1 3])
       = [1, 2, 3]"
  by code_simp

text \<open>
  What does hold: started on a vote whose options are numbered \<open>0, ..., count - 1\<close>, with
  the option instance as loaded from the database, every one of the four methods leaves
  a database that satisfies its constraints and a dense numbering. \<open>addOption\<close> and
  \<open>deleteOption\<close> (on a vote that is a row of the database) return; the move methods
  either return at the boundary or raise, and in both cases no row has changed.
\<close>

theorem dense_numbering_preserved:
  assumes "wf_db d" and "contiguous self d"
  shows "(\<exists>d'. addOption self d = (None, d') \<and> wf_db d' \<and> contiguous self d')
     \<and> (self \<in> set (votes d) \<and> option \<in> set (option_set self d) \<longrightarrow>
          (\<exists>self' d'. deleteOption self option d = (None, self', option\<lparr>oid := None\<rparr>, d')
              \<and> wf_db d' \<and> contiguous self d'))
     \<and> (option \<in> set (option_set self d) \<longrightarrow>
          wf_db (snd (snd (moveUpOption self option d)))
          \<and> contiguous self (snd (snd (moveUpOption self option d)))
          \<and> wf_db (snd (snd (moveDownOption self option d)))
          \<and> contiguous self (snd (snd (moveDownOption self option d))))"
proof (intro conjI impI)
  from renumbered_dense[OF assms] obtain d1 where "renumberOptions self d = Inr d1" by blast
  then show "\<exists>d'. addOption self d = (None, d') \<and> wf_db d' \<and> contiguous self d'"
    by (rule addOption_dense[OF assms(1)])
next
  assume a: "self \<in> set (votes d) \<and> option \<in> set (option_set self d)"
  then have mem: "oid option \<in> set (map oid (option_set self d))" by simp
  have nn: "\<forall>r \<in> set (option_set self d). 0 \<le> number r"
    using contiguous_range(1)[OF assms(2)] by blast
  from a have s: "self \<in> set (votes d)" by simp
  from deleteOption_steps[OF assms(1) s mem nn] obtain self2 d2 d3 where
    s2: "self2 = self\<lparr>min_votes := min (min_votes self) (int (length (option_set self d2))),
                   max_votes := min (max_votes self) (int (length (option_set self d2)))\<rparr>"
    and wf2: "wf_db d2"
    and r: "renumberOptions self2 d2 = Inr d3"
    and res: "deleteOption self option d = (None, self2, option\<lparr>oid := None\<rparr>, d3)"
    by blast
  have v: "vid self = vid self2" by (simp add: s2)
  have "wf_db d3" by (rule renumbered_wf[OF wf2 r])
  moreover have "contiguous self d3"
    using renumbered_contiguous[OF wf2 r] contiguous_vid[OF v, of d3] by simp
  ultimately show "\<exists>self' d'. deleteOption self option d
        = (None, self', option\<lparr>oid := None\<rparr>, d') \<and> wf_db d' \<and> contiguous self d'"
    using res by blast
next
  assume o: "option \<in> set (option_set self d)"
  show "wf_db (snd (snd (moveUpOption self option d)))"
    using assms(1) by (simp add: moveUpOption_dense[OF assms o] wf_contiguous_writes)
  show "contiguous self (snd (snd (moveUpOption self option d)))"
    using assms(2) by (simp add: moveUpOption_dense[OF assms o] wf_contiguous_writes)
  show "wf_db (snd (snd (moveDownOption self option d)))"
    using assms(1) by (simp add: moveDownOption_dense[OF assms o] wf_contiguous_writes)
  show "contiguous self (snd (snd (moveDownOption self option d)))"
    using assms(2) by (simp add: moveDownOption_dense[OF assms o] wf_contiguous_writes)
qed

theorem dense_numbering_preserved_witness:
  "wf_db (example_db [0, 1, 2])
   \<and> contiguous (example_vote 1 2 3) (example_db [0, 1, 2])
   \<and> (\<exists>d'. addOption (example_vote 1 2 3) (example_db [0, 1, 2]) = (None, d')
         \<and> contiguous (example_vote 1 2 3) d')
   \<and> (\<exists>self' d'. deleteOption (example_vote 1 2 3) (example_option 2 1 1) (example_db [0, 1, 2])
            = (None, self', (example_option 2 1 1)\<lparr>oid := None\<rparr>, d')
         \<and> contiguous (example_vote 1 2 3) d')
   \<and> contiguous (example_vote 1 2 3)
        (snd (snd (moveUpOption (example_vote 1 2 3) (example_option 2 1 1) (example_db [0, 1, 2]))))
   \<and> contiguous (example_vote 1 2 3)
        (snd (snd (moveDownOption (example_vote 1 2 3) (example_option 2 1 1) (example_db [0, 1, 2]))))"
proof -
  note t = dense_numbering_preserved[OF ex_dense_wf ex_dense_dense,
      of "example_option 2 1 1"]
  from t have a: "\<exists>d'. addOption (example_vote 1 2 3) (example_db [0, 1, 2]) = (None, d')
         \<and> contiguous (example_vote 1 2 3) d'" by blast
  from t ex_dense_vote ex_dense_second
  have b: "\<exists>self' d'. deleteOption (example_vote 1 2 3) (example_option 2 1 1) (example_db [0, 1, 2])
            = (None, self', (example_option 2 1 1)\<lparr>oid := None\<rparr>, d')
         \<and> contiguous (example_vote 1 2 3) d'" by blast
  from t ex_dense_second
  have c: "contiguous (example_vote 1 2 3)
        (snd (snd (moveUpOption (example_vote 1 2 3) (example_option 2 1 1) (example_db [0, 1, 2]))))"
    "contiguous (example_vote 1 2 3)
        (snd (snd (moveDownOption (example_vote 1 2 3) (example_option 2 1 1) (example_db [0, 1, 2]))))"
    by blast+
  from ex_dense_wf ex_dense_dense a b c show ?thesis by (intro conjI)
qed

end
